theory Spec2Isabelle
  imports Complex_Main
begin

section \<open>Numbers of the program\<close>

text \<open>
  The notebooks compute with IEEE doubles, either Python \<open>float\<close>s (the slider values
  and everything computed from them alone) or NumPy \<open>float64\<close>s (whatever passed through
  \<open>np.sqrt\<close> or came out of \<open>fsolve\<close>). The model keeps the special values, because the
  loops test for them, and takes finite arithmetic to be exact: a finite value is a real
  number, there is no rounding, no overflow, no underflow and no signed zero.

  Three things the code does are therefore not in the functions below. Python's \<open>**\<close>
  raises \<open>OverflowError\<close> when its result leaves the range of a double; a product or a
  power of very small values underflows to zero, which can turn a divisor into zero; and
  the running distance \<open>x += dx\<close> is rounded at every step. The first two need values
  far outside what the notebooks' sliders offer, so that no exception is raised is stated
  for the sliders' ranges. The third changes the number of steps a loop takes; it
  is analysed with binary64 rounding in its own section, and what is stated about that
  number holds with and without rounding.
\<close>

datatype fl = Fin real | PInf | NInf | NaN

fun fl_neg :: "fl \<Rightarrow> fl" where
  "fl_neg (Fin a) = Fin (- a)"
| "fl_neg PInf = NInf"
| "fl_neg NInf = PInf"
| "fl_neg NaN = NaN"

fun fl_add :: "fl \<Rightarrow> fl \<Rightarrow> fl" where
  "fl_add (Fin a) (Fin b) = Fin (a + b)"
| "fl_add NaN _ = NaN"
| "fl_add _ NaN = NaN"
| "fl_add PInf NInf = NaN"
| "fl_add NInf PInf = NaN"
| "fl_add PInf _ = PInf"
| "fl_add _ PInf = PInf"
| "fl_add NInf _ = NInf"
| "fl_add _ NInf = NInf"

definition fl_sub :: "fl \<Rightarrow> fl \<Rightarrow> fl" where
  "fl_sub a b = fl_add a (fl_neg b)"

text \<open>The sign of an infinite product or quotient, decided by the finite factor.\<close>

definition signed_inf :: "bool \<Rightarrow> real \<Rightarrow> fl" where
  "signed_inf pos a = (if a = 0 then NaN else if (0 < a) = pos then PInf else NInf)"

fun fl_mul :: "fl \<Rightarrow> fl \<Rightarrow> fl" where
  "fl_mul (Fin a) (Fin b) = Fin (a * b)"
| "fl_mul NaN _ = NaN"
| "fl_mul _ NaN = NaN"
| "fl_mul (Fin a) PInf = signed_inf True a"
| "fl_mul (Fin a) NInf = signed_inf False a"
| "fl_mul PInf (Fin b) = signed_inf True b"
| "fl_mul NInf (Fin b) = signed_inf False b"
| "fl_mul PInf PInf = PInf"
| "fl_mul NInf NInf = PInf"
| "fl_mul PInf NInf = NInf"
| "fl_mul NInf PInf = NInf"

text \<open>
  IEEE division, as NumPy performs it: a zero divisor gives an infinity or not-a-number
  (with a warning, which is not modelled), never an exception.
\<close>

fun fl_div :: "fl \<Rightarrow> fl \<Rightarrow> fl" where
  "fl_div (Fin a) (Fin b) = (if b = 0 then signed_inf True a else Fin (a / b))"
| "fl_div NaN _ = NaN"
| "fl_div _ NaN = NaN"
| "fl_div (Fin a) PInf = Fin 0"
| "fl_div (Fin a) NInf = Fin 0"
| "fl_div PInf (Fin b) = (if 0 \<le> b then PInf else NInf)"
| "fl_div NInf (Fin b) = (if 0 \<le> b then NInf else PInf)"
| "fl_div PInf PInf = NaN"
| "fl_div PInf NInf = NaN"
| "fl_div NInf PInf = NaN"
| "fl_div NInf NInf = NaN"

fun fl_abs :: "fl \<Rightarrow> fl" where
  "fl_abs (Fin a) = Fin \<bar>a\<bar>"
| "fl_abs PInf = PInf"
| "fl_abs NInf = PInf"
| "fl_abs NaN = NaN"

fun fl_sqrt :: "fl \<Rightarrow> fl" where
  "fl_sqrt (Fin a) = (if a < 0 then NaN else Fin (sqrt a))"
| "fl_sqrt PInf = PInf"
| "fl_sqrt NInf = NaN"
| "fl_sqrt NaN = NaN"

text \<open>\<open>x ** k\<close> for the integer exponents of the code (2 and 3).\<close>

fun fl_power :: "fl \<Rightarrow> nat \<Rightarrow> fl" where
  "fl_power (Fin a) k = Fin (a ^ k)"
| "fl_power PInf k = (if k = 0 then Fin 1 else PInf)"
| "fl_power NInf k = (if k = 0 then Fin 1 else if even k then PInf else NInf)"
| "fl_power NaN k = (if k = 0 then Fin 1 else NaN)"

text \<open>
  \<open>x ** e\<close> for the positive fractional exponents of the code (1/3, 2/3, 4/3, 5/3, 0.5):
  a negative finite base gives not-a-number (NumPy's result; Python's own \<open>float\<close> power
  would give a complex number there, but every Python base in the code is a quotient of
  squares, \<open>1 + z**2\<close> or the start depth, none of them negative); zero gives zero.
\<close>

fun fl_powr :: "fl \<Rightarrow> real \<Rightarrow> fl" where
  "fl_powr (Fin a) e = (if a < 0 then NaN else Fin (a powr e))"
| "fl_powr PInf e = PInf"
| "fl_powr NInf e = PInf"
| "fl_powr NaN e = NaN"

fun fl_lt :: "fl \<Rightarrow> fl \<Rightarrow> bool" where
  "fl_lt (Fin a) (Fin b) = (a < b)"
| "fl_lt NaN _ = False"
| "fl_lt _ NaN = False"
| "fl_lt _ NInf = False"
| "fl_lt PInf _ = False"
| "fl_lt NInf _ = True"
| "fl_lt _ PInf = True"

fun fl_le :: "fl \<Rightarrow> fl \<Rightarrow> bool" where
  "fl_le (Fin a) (Fin b) = (a \<le> b)"
| "fl_le NaN _ = False"
| "fl_le _ NaN = False"
| "fl_le NInf _ = True"
| "fl_le _ PInf = True"
| "fl_le PInf _ = False"
| "fl_le _ NInf = False"

fun fl_isnan :: "fl \<Rightarrow> bool" where
  "fl_isnan NaN = True"
| "fl_isnan _ = False"

subsection \<open>Python floats and NumPy floats\<close>

text \<open>
  The two kinds differ in one operation of the code: \<open>/\<close> with a zero divisor raises
  \<open>ZeroDivisionError\<close> when both operands are Python floats and follows IEEE as soon as
  one operand is a NumPy float. A result is a NumPy float as soon as one operand is.
\<close>

datatype pynum = Py fl | Np fl

datatype pyerr = ZeroDivisionError

fun val :: "pynum \<Rightarrow> fl" where
  "val (Py v) = v"
| "val (Np v) = v"

fun both_py :: "pynum \<Rightarrow> pynum \<Rightarrow> bool" where
  "both_py (Py _) (Py _) = True"
| "both_py _ _ = False"

definition kind_of :: "pynum \<Rightarrow> pynum \<Rightarrow> fl \<Rightarrow> pynum" where
  "kind_of a b v = (if both_py a b then Py v else Np v)"

definition add :: "pynum \<Rightarrow> pynum \<Rightarrow> pynum" where
  "add a b = kind_of a b (fl_add (val a) (val b))"

definition sub :: "pynum \<Rightarrow> pynum \<Rightarrow> pynum" where
  "sub a b = kind_of a b (fl_sub (val a) (val b))"

definition mul :: "pynum \<Rightarrow> pynum \<Rightarrow> pynum" where
  "mul a b = kind_of a b (fl_mul (val a) (val b))"

definition truediv :: "pynum \<Rightarrow> pynum \<Rightarrow> pyerr + pynum" where
  "truediv a b =
     (if both_py a b \<and> val b = Fin 0 then Inl ZeroDivisionError
      else Inr (kind_of a b (fl_div (val a) (val b))))"

definition pow_int :: "pynum \<Rightarrow> nat \<Rightarrow> pynum" where
  "pow_int a k = kind_of a a (fl_power (val a) k)"

definition pow_frac :: "pynum \<Rightarrow> real \<Rightarrow> pynum" where
  "pow_frac a e = kind_of a a (fl_powr (val a) e)"

definition pabs :: "pynum \<Rightarrow> pynum" where
  "pabs a = kind_of a a (fl_abs (val a))"

definition np_sqrt :: "pynum \<Rightarrow> pynum" where
  "np_sqrt a = Np (fl_sqrt (val a))"

definition np_isnan :: "pynum \<Rightarrow> bool" where
  "np_isnan a = fl_isnan (val a)"

definition lt :: "pynum \<Rightarrow> pynum \<Rightarrow> bool" where
  "lt a b = fl_lt (val a) (val b)"

definition le :: "pynum \<Rightarrow> pynum \<Rightarrow> bool" where
  "le a b = fl_le (val a) (val b)"

definition gt :: "pynum \<Rightarrow> pynum \<Rightarrow> bool" where
  "gt a b = fl_lt (val b) (val a)"

text \<open>A Python literal or slider value.\<close>

definition lit :: "real \<Rightarrow> pynum" where
  "lit r = Py (Fin r)"

text \<open>Sequencing of a computation that may raise.\<close>

definition bind_err :: "pyerr + 'a \<Rightarrow> ('a \<Rightarrow> pyerr + 'b) \<Rightarrow> pyerr + 'b" where
  "bind_err m f = (case m of Inl e \<Rightarrow> Inl e | Inr v \<Rightarrow> f v)"

subsection \<open>\<open>while\<close> with \<open>break\<close>\<close>

text \<open>
  One pass through a loop body either reaches the end of the body, leaves the loop by
  \<open>break\<close>, or raises. The loop itself may run forever, so it is a partial function:
  \<open>None\<close> is a run that never returns.
\<close>

datatype 'st flow = Continue 'st | Break 'st | Raise pyerr

partial_function (option) py_while ::
  "('st \<Rightarrow> bool) \<Rightarrow> ('st \<Rightarrow> 'st flow) \<Rightarrow> 'st \<Rightarrow> (pyerr + 'st) option" where
  "py_while c body s =
     (if c s then
        (case body s of
           Continue s' \<Rightarrow> py_while c body s'
         | Break s' \<Rightarrow> Some (Inr s')
         | Raise e \<Rightarrow> Some (Inl e))
      else Some (Inr s))"

text \<open>
  \<open>fsolve(f, x0)[0]\<close>: the root finder is SciPy's, not part of the repository, and is a
  parameter of the model. It hands the residual NumPy values and returns a NumPy value; an
  exception raised by the residual passes through it.
\<close>

type_synonym solver = "(fl \<Rightarrow> pyerr + fl) \<Rightarrow> fl \<Rightarrow> pyerr + fl"

definition fsolve_first :: "solver \<Rightarrow> (pynum \<Rightarrow> pyerr + pynum) \<Rightarrow> pynum \<Rightarrow> pyerr + pynum" where
  "fsolve_first slv f x0 =
     (case slv (\<lambda>v. case f (Np v) of Inl e \<Rightarrow> Inl e | Inr r \<Rightarrow> Inr (val r)) (val x0) of
        Inl e \<Rightarrow> Inl e
      | Inr r \<Rightarrow> Inr (Np r))"

section \<open>Rectangular channel (the three rectangular notebooks)\<close>

definition g :: pynum where
  "g = lit 9.81"

text \<open>\<open>compute_critical_depth(Q, b)\<close>: \<open>(Q**2 / (g * b**2))**(1/3)\<close>.\<close>

definition compute_critical_depth :: "pynum \<Rightarrow> pynum \<Rightarrow> pyerr + pynum" where
  "compute_critical_depth Q b =
     bind_err (truediv (pow_int Q 2) (mul g (pow_int b 2))) (\<lambda>q. Inr (pow_frac q (1/3)))"

text \<open>\<open>Sf(y, Q, b, n)\<close>, with the wide-channel hydraulic radius \<open>R = y\<close>.\<close>

definition Sf :: "pynum \<Rightarrow> pynum \<Rightarrow> pynum \<Rightarrow> pynum \<Rightarrow> pyerr + pynum" where
  "Sf y Q b n =
     (let A = mul b y; R = y
      in truediv (mul (pow_int n 2) (pow_int Q 2)) (mul (pow_int A 2) (pow_frac R (4/3))))"

text \<open>\<open>Fr(Q, b, y)\<close>: \<open>Q / (b * y * np.sqrt(g * y))\<close>.\<close>

definition Fr :: "pynum \<Rightarrow> pynum \<Rightarrow> pynum \<Rightarrow> pyerr + pynum" where
  "Fr Q b y = truediv Q (mul (mul b y) (np_sqrt (mul g y)))"

text \<open>
  The state of a marching loop: the local variables \<open>x\<close>, \<open>y\<close> and the lists
  \<open>x_vals\<close>, \<open>y_vals\<close>; \<open>list.append\<close> adds at the end.
\<close>

type_synonym march = "pynum \<times> pynum \<times> pynum list \<times> pynum list"

subsection \<open>Interactive notebook: \<open>plot_profile\<close>\<close>

text \<open>
  \<open>compute_normal_depth(Q, b, n, S0)\<close> of the interactive notebook. The residual is a
  lambda with no test of its argument.
\<close>

definition normal_depth_func :: "pynum \<Rightarrow> pynum \<Rightarrow> pynum \<Rightarrow> pynum \<Rightarrow> pynum \<Rightarrow> pyerr + pynum" where
  "normal_depth_func Q b n S0 y =
     bind_err (truediv (lit 1) n)
       (\<lambda>r. Inr (sub (mul (mul (mul r b) (pow_frac y (5/3))) (np_sqrt S0)) Q))"

definition compute_normal_depth_interactive ::
  "solver \<Rightarrow> pynum \<Rightarrow> pynum \<Rightarrow> pynum \<Rightarrow> pynum \<Rightarrow> pyerr + pynum" where
  "compute_normal_depth_interactive slv Q b n S0 =
     bind_err (truediv (pow_int Q 2) (mul g (pow_int b 2)))
       (\<lambda>q. let y_guess = mul (pow_frac q (1/3)) (lit 1.5)
            in fsolve_first slv (normal_depth_func Q b n S0) y_guess)"

text \<open>The body of the loop of \<open>plot_profile\<close>: no test of the new depth.\<close>

definition plot_profile_body ::
  "pynum \<Rightarrow> pynum \<Rightarrow> pynum \<Rightarrow> pynum \<Rightarrow> pynum \<Rightarrow> march \<Rightarrow> march flow" where
  "plot_profile_body Q b n S0 dx = (\<lambda>(x, y, x_vals, y_vals).
     case Fr Q b y of Inl e \<Rightarrow> Raise e | Inr fr \<Rightarrow>
     (let denom = sub (lit 1) (pow_int fr 2) in
      if lt (pabs denom) (lit 0.000001) then Break (x, y, x_vals, y_vals)
      else
       (case Sf y Q b n of Inl e \<Rightarrow> Raise e | Inr sf \<Rightarrow>
       (case truediv (sub S0 sf) denom of Inl e \<Rightarrow> Raise e | Inr dy_dx \<Rightarrow>
       (let y' = add y (mul dy_dx dx);
            x' = add x dx
        in Continue (x', y', x_vals @ [x'], y_vals @ [y']))))))"

text \<open>
  \<open>plot_profile(Q, b, n, S0, L, dx, ...)\<close>, up to the data it plots: the two lists, the
  critical depth and the normal depth. The weir discharge estimate, the chart and the
  printing are left out.
\<close>

definition plot_profile ::
  "solver \<Rightarrow> pynum \<Rightarrow> pynum \<Rightarrow> pynum \<Rightarrow> pynum \<Rightarrow> pynum \<Rightarrow> pynum \<Rightarrow>
   (pyerr + pynum list \<times> pynum list \<times> pynum \<times> pynum) option" where
  "plot_profile slv Q b n S0 L dx =
     (case compute_critical_depth Q b of Inl e \<Rightarrow> Some (Inl e) | Inr y_crit \<Rightarrow>
     (case compute_normal_depth_interactive slv Q b n S0 of Inl e \<Rightarrow> Some (Inl e) | Inr y_normal \<Rightarrow>
     (let y_start = mul y_crit (lit 1.05) in
      map_option (map_sum id (\<lambda>(x, y, x_vals, y_vals). (x_vals, y_vals, y_crit, y_normal)))
        (py_while (\<lambda>(x, y, x_vals, y_vals). lt x L) (plot_profile_body Q b n S0 dx)
           (lit 0, y_start, [lit 0], [y_start])))))"

subsection \<open>Corrected-upstream notebook: \<open>compute_backwater_from_weir\<close>\<close>

type_synonym march_fr = "pynum \<times> pynum \<times> pynum list \<times> pynum list \<times> pynum list"

text \<open>
  The body of its loop: a denominator of magnitude below \<open>1e-6\<close> is replaced by the
  literal \<open>1e-6\<close>; the new depth is tested before anything is appended. The two
  \<open>print\<close> calls are left out.
\<close>

definition backwater_from_weir_body ::
  "pynum \<Rightarrow> pynum \<Rightarrow> pynum \<Rightarrow> pynum \<Rightarrow> pynum \<Rightarrow> march_fr \<Rightarrow> march_fr flow" where
  "backwater_from_weir_body Q b n S0 dx = (\<lambda>(x, y, x_vals, y_vals, fr_vals).
     case Fr Q b y of Inl e \<Rightarrow> Raise e | Inr fr \<Rightarrow>
     (let denom0 = sub (lit 1) (pow_int fr 2);
          denom = (if lt (pabs denom0) (lit 0.000001) then lit 0.000001 else denom0) in
      (case Sf y Q b n of Inl e \<Rightarrow> Raise e | Inr sf \<Rightarrow>
      (case truediv (sub S0 sf) denom of Inl e \<Rightarrow> Raise e | Inr dydx \<Rightarrow>
      (let y' = add y (mul dydx dx);
           x' = add x dx
       in if le y' (lit 0) \<or> np_isnan y' then Break (x', y', x_vals, y_vals, fr_vals)
          else Continue (x', y', x_vals @ [x'], y_vals @ [y'], fr_vals @ [fr]))))))"

definition compute_backwater_from_weir ::
  "pynum \<Rightarrow> pynum \<Rightarrow> pynum \<Rightarrow> pynum \<Rightarrow> pynum \<Rightarrow> pynum \<Rightarrow>
   (pyerr + pynum list \<times> pynum list \<times> pynum \<times> pynum list) option" where
  "compute_backwater_from_weir Q b n S0 dx L =
     (case compute_critical_depth Q b of Inl e \<Rightarrow> Some (Inl e) | Inr y_crit \<Rightarrow>
     (let y_start = mul y_crit (lit 1.01) in
      map_option
        (map_sum id (\<lambda>(x, y, x_vals, y_vals, fr_vals). (x_vals, y_vals, y_crit, fr_vals)))
        (py_while (\<lambda>(x, y, x_vals, y_vals, fr_vals). lt x L)
           (backwater_from_weir_body Q b n S0 dx)
           (lit 0, y_start, [lit 0], [y_start], []))))"

subsection \<open>Smooth-backwater notebook: \<open>compute_gvf_backwater\<close>\<close>

text \<open>\<open>manning_eq\<close>, the residual of its \<open>compute_normal_depth\<close>, with its guard.\<close>

definition manning_eq :: "pynum \<Rightarrow> pynum \<Rightarrow> pynum \<Rightarrow> pynum \<Rightarrow> pynum \<Rightarrow> pyerr + pynum" where
  "manning_eq Q b n S0 y =
     (if le y (lit 0) then Inr (lit 1000000)
      else
        let A = mul b y; R = y in
        bind_err (truediv (lit 1) n)
          (\<lambda>r. Inr (sub (mul (mul (mul r A) (pow_frac R (2/3))) (np_sqrt S0)) Q)))"

definition compute_normal_depth ::
  "solver \<Rightarrow> pynum \<Rightarrow> pynum \<Rightarrow> pynum \<Rightarrow> pynum \<Rightarrow> pyerr + pynum" where
  "compute_normal_depth slv Q b n S0 =
     bind_err (compute_critical_depth Q b)
       (\<lambda>y_crit. let y_guess = mul y_crit (lit 1.5)
            in fsolve_first slv (manning_eq Q b n S0) y_guess)"

definition gvf_backwater_body ::
  "pynum \<Rightarrow> pynum \<Rightarrow> pynum \<Rightarrow> pynum \<Rightarrow> pynum \<Rightarrow> march \<Rightarrow> march flow" where
  "gvf_backwater_body Q b n S0 dx = (\<lambda>(x, y, x_vals, y_vals).
     case Fr Q b y of Inl e \<Rightarrow> Raise e | Inr fr \<Rightarrow>
     (let denom = sub (lit 1) (pow_int fr 2) in
      if lt (pabs denom) (lit 0.000001) then Break (x, y, x_vals, y_vals)
      else
       (case Sf y Q b n of Inl e \<Rightarrow> Raise e | Inr sf \<Rightarrow>
       (case truediv (sub S0 sf) denom of Inl e \<Rightarrow> Raise e | Inr dydx \<Rightarrow>
       (let y' = sub y (mul dydx dx);
            x' = sub x dx
        in if le y' (lit 0) \<or> np_isnan y' then Break (x', y', x_vals, y_vals)
           else Continue (x', y', x_vals @ [x'], y_vals @ [y']))))))"

text \<open>\<open>compute_gvf_backwater(Q, b, n, S0, y_end, y_stop, dx)\<close>; \<open>[::-1]\<close> is \<open>rev\<close>.\<close>

definition compute_gvf_backwater ::
  "pynum \<Rightarrow> pynum \<Rightarrow> pynum \<Rightarrow> pynum \<Rightarrow> pynum \<Rightarrow> pynum \<Rightarrow> pynum \<Rightarrow>
   (pyerr + pynum list \<times> pynum list) option" where
  "compute_gvf_backwater Q b n S0 y_end y_stop dx =
     map_option (map_sum id (\<lambda>(x, y, x_vals, y_vals). (rev x_vals, rev y_vals)))
       (py_while (\<lambda>(x, y, x_vals, y_vals). gt y y_stop \<and> gt x (lit (- 1000)))
          (gvf_backwater_body Q b n S0 dx)
          (lit 0, y_end, [lit 0], [y_end]))"

text \<open>
  \<open>plot_smooth_backwater(Q, b, n, S0, dx, L)\<close>, up to the data it plots and prints: the
  two lists, the critical depth and the normal depth.
\<close>

definition plot_smooth_backwater ::
  "solver \<Rightarrow> pynum \<Rightarrow> pynum \<Rightarrow> pynum \<Rightarrow> pynum \<Rightarrow> pynum \<Rightarrow> pynum \<Rightarrow>
   (pyerr + pynum list \<times> pynum list \<times> pynum \<times> pynum) option" where
  "plot_smooth_backwater slv Q b n S0 dx L =
     (case compute_critical_depth Q b of Inl e \<Rightarrow> Some (Inl e) | Inr y_crit \<Rightarrow>
     (case compute_normal_depth slv Q b n S0 of Inl e \<Rightarrow> Some (Inl e) | Inr y_normal \<Rightarrow>
      map_option (map_sum id (\<lambda>(x_vals, y_vals). (x_vals, y_vals, y_crit, y_normal)))
        (compute_gvf_backwater Q b n S0 y_normal y_crit dx)))"

section \<open>Trapezoidal channel: \<open>compute_gvf_profile\<close>\<close>

definition area :: "pynum \<Rightarrow> pynum \<Rightarrow> pynum \<Rightarrow> pynum" where
  "area b z y = add (mul b y) (mul z (pow_int y 2))"

definition perimeter :: "pynum \<Rightarrow> pynum \<Rightarrow> pynum \<Rightarrow> pynum" where
  "perimeter b z y =
     add b (mul (mul (lit 2) y) (pow_frac (add (lit 1) (pow_int z 2)) 0.5))"

definition top_width :: "pynum \<Rightarrow> pynum \<Rightarrow> pynum \<Rightarrow> pynum" where
  "top_width b z y = add b (mul (mul (lit 2) z) y)"

definition hydraulic_radius :: "pynum \<Rightarrow> pynum \<Rightarrow> pynum \<Rightarrow> pyerr + pynum" where
  "hydraulic_radius b z y =
     (let A = area b z y; P = perimeter b z y in truediv A P)"

text \<open>The residual \<open>func\<close> of the trapezoidal \<open>compute_critical_depth(Q, b, z)\<close>.\<close>

definition critical_depth_func :: "pynum \<Rightarrow> pynum \<Rightarrow> pynum \<Rightarrow> pynum \<Rightarrow> pyerr + pynum" where
  "critical_depth_func Q b z y =
     (let A = area b z y; T = top_width b z y
      in Inr (sub (mul (pow_int Q 2) T) (mul g (pow_int A 3))))"

definition compute_critical_depth_trapezoidal ::
  "solver \<Rightarrow> pynum \<Rightarrow> pynum \<Rightarrow> pynum \<Rightarrow> pyerr + pynum" where
  "compute_critical_depth_trapezoidal slv Q b z =
     fsolve_first slv (critical_depth_func Q b z) (lit 1.0)"

definition Sf_trapezoidal ::
  "pynum \<Rightarrow> pynum \<Rightarrow> pynum \<Rightarrow> pynum \<Rightarrow> pynum \<Rightarrow> pyerr + pynum" where
  "Sf_trapezoidal Q b z y n =
     (let A = area b z y in
      bind_err (hydraulic_radius b z y)
        (\<lambda>R. truediv (mul (pow_int n 2) (pow_int Q 2)) (mul (pow_int A 2) (pow_frac R (4/3)))))"

definition Fr_trapezoidal :: "pynum \<Rightarrow> pynum \<Rightarrow> pynum \<Rightarrow> pynum \<Rightarrow> pyerr + pynum" where
  "Fr_trapezoidal Q b z y =
     (let A = area b z y; T = top_width b z y in
      bind_err (truediv (mul g A) T) (\<lambda>q. truediv Q (mul A (np_sqrt q))))"

definition gvf_profile_body ::
  "pynum \<Rightarrow> pynum \<Rightarrow> pynum \<Rightarrow> pynum \<Rightarrow> pynum \<Rightarrow> pynum \<Rightarrow> march \<Rightarrow> march flow" where
  "gvf_profile_body Q b z n S0 dx = (\<lambda>(x, y, x_vals, y_vals).
     case Fr_trapezoidal Q b z y of Inl e \<Rightarrow> Raise e | Inr fr \<Rightarrow>
     (let denom = sub (lit 1) (pow_int fr 2) in
      if lt (pabs denom) (lit 0.000001) then Break (x, y, x_vals, y_vals)
      else
       (case Sf_trapezoidal Q b z y n of Inl e \<Rightarrow> Raise e | Inr sf \<Rightarrow>
       (case truediv (sub S0 sf) denom of Inl e \<Rightarrow> Raise e | Inr dydx \<Rightarrow>
       (let y' = add y (mul dydx dx);
            x' = add x dx
        in if le y' (lit 0) \<or> np_isnan y' then Break (x', y', x_vals, y_vals)
           else Continue (x', y', x_vals @ [x'], y_vals @ [y']))))))"

text \<open>
  \<open>compute_gvf_profile(Q, b, z, n, S0, dx, L)\<close>. Writing the CSV file is left out; the
  path it returns is the constant of the source.
\<close>

definition compute_gvf_profile ::
  "solver \<Rightarrow> pynum \<Rightarrow> pynum \<Rightarrow> pynum \<Rightarrow> pynum \<Rightarrow> pynum \<Rightarrow> pynum \<Rightarrow> pynum \<Rightarrow>
   (pyerr + pynum list \<times> pynum list \<times> pynum \<times> string) option" where
  "compute_gvf_profile slv Q b z n S0 dx L =
     (case compute_critical_depth_trapezoidal slv Q b z of Inl e \<Rightarrow> Some (Inl e) | Inr y_crit \<Rightarrow>
     (let y_start = mul y_crit (lit 1.01) in
      map_option
        (map_sum id (\<lambda>(x, y, x_vals, y_vals).
           (x_vals, y_vals, y_crit, ''outputs/gvf_profile.csv'')))
        (py_while (\<lambda>(x, y, x_vals, y_vals). lt x L) (gvf_profile_body Q b z n S0 dx)
           (lit 0, y_start, [lit 0], [y_start]))))"

section \<open>Auxiliary definitions for the statements\<close>

text \<open>The values \<open>0, e, 2e, ..., k e\<close>: what repeated \<open>x += e\<close> from \<open>x = 0\<close> appends.\<close>

definition grid :: "real \<Rightarrow> nat \<Rightarrow> pynum list" where
  "grid e k = map (\<lambda>i. lit (real i * e)) [0..<Suc k]"

text \<open>The number of steps of size \<open>\<bar>e\<bar>\<close> still below the bound \<open>l\<close>.\<close>

definition march_measure :: "real \<Rightarrow> real \<Rightarrow> pynum \<Rightarrow> nat" where
  "march_measure e l x =
     (case x of Py (Fin v) \<Rightarrow> nat \<lceil>(l - v * sgn e) / \<bar>e\<bar>\<rceil> | _ \<Rightarrow> 0)"

text \<open>
  A root finder for closed statements: it gives its starting value back, as \<open>fsolve\<close>
  does when it makes no progress. The sample lists never depend on the normal depth it
  stands for in \<open>plot_profile\<close>.
\<close>

definition seed_solver :: solver where
  "seed_solver f x0 = Inr x0"

text \<open>
  The body of the clamping loop as the specification words it: a denominator of magnitude
  below \<open>1e-6\<close> becomes \<open>1e-6\<close> with the sign of the original denominator. It stands
  beside the body of the source only to be compared with it.
\<close>

definition spec_signed_clamp_body ::
  "pynum \<Rightarrow> pynum \<Rightarrow> pynum \<Rightarrow> pynum \<Rightarrow> pynum \<Rightarrow> march_fr \<Rightarrow> march_fr flow" where
  "spec_signed_clamp_body Q b n S0 dx = (\<lambda>(x, y, x_vals, y_vals, fr_vals).
     case Fr Q b y of Inl e \<Rightarrow> Raise e | Inr fr \<Rightarrow>
     (let denom0 = sub (lit 1) (pow_int fr 2);
          denom = (if lt (pabs denom0) (lit 0.000001)
                   then (if lt denom0 (lit 0) then lit (- 0.000001) else lit 0.000001)
                   else denom0) in
      (case Sf y Q b n of Inl e \<Rightarrow> Raise e | Inr sf \<Rightarrow>
      (case truediv (sub S0 sf) denom of Inl e \<Rightarrow> Raise e | Inr dydx \<Rightarrow>
      (let y' = add y (mul dydx dx);
           x' = add x dx
       in if le y' (lit 0) \<or> np_isnan y' then Break (x', y', x_vals, y_vals, fr_vals)
          else Continue (x', y', x_vals @ [x'], y_vals @ [y'], fr_vals @ [fr]))))))"

section \<open>The sliders\<close>





section \<open>The running distance in binary64\<close>

text \<open>
  The distance after \<open>k\<close> passes through \<open>x += dx\<close> from \<open>x = 0\<close>, when every sum is
  rounded by \<open>rnd\<close>. The loops above are the case of no rounding.
\<close>

fun running_sum :: "(real \<Rightarrow> real) \<Rightarrow> real \<Rightarrow> nat \<Rightarrow> real" where
  "running_sum rnd dx 0 = 0"
| "running_sum rnd dx (Suc k) = rnd (running_sum rnd dx k + dx)"

text \<open>
  Rounding to the nearest double, ties to the even significand: 53 significant bits. The
  limits of the exponent are left out (no overflow, no subnormal numbers); the distances
  of the loops are far from both.
\<close>

definition round_half_even :: "real \<Rightarrow> int" where
  "round_half_even r =
     (let f = \<lfloor>r\<rfloor> in
      if r - of_int f < 1 / 2 then f
      else if 1 / 2 < r - of_int f then f + 1
      else if even f then f else f + 1)"

definition binary64 :: "real \<Rightarrow> real" where
  "binary64 r =
     (if r = 0 then 0
      else let e = \<lfloor>log 2 \<bar>r\<bar>\<rfloor>
           in of_int (round_half_even (r * 2 powi (52 - e))) * 2 powi (e - 52))"

section \<open>Arithmetic of the model\<close>

lemma add_lit: "add (lit a) (lit b) = lit (a + b)"
  by (simp add: add_def lit_def kind_of_def)

lemma sub_lit: "sub a (lit d) = add a (lit (- d))"
  by (cases a) (simp_all add: sub_def add_def lit_def fl_sub_def kind_of_def)

lemma powr_third_cube: "0 \<le> (c::real) \<Longrightarrow> (c ^ 3) powr (1/3) = c"
  by (cases "c = 0") (simp_all add: powr_powr flip: powr_numeral)

lemma powr_third_less: "0 \<le> (a::real) \<Longrightarrow> 0 < c \<Longrightarrow> a < c ^ 3 \<Longrightarrow> a powr (1/3) < c"
  using powr_less_mono2[of "1/3" a "c^3"] powr_third_cube[of c] by simp

lemma powr_third_greater: "0 \<le> (c::real) \<Longrightarrow> c ^ 3 < a \<Longrightarrow> c < a powr (1/3)"
  using powr_less_mono2[of "1/3" "c^3" a] powr_third_cube[of c] by simp

lemma critical_depth_lit:
  "b \<noteq> 0 \<Longrightarrow>
   compute_critical_depth (lit Q) (lit b) = Inr (lit ((Q\<^sup>2 / (9.81 * b\<^sup>2)) powr (1/3)))"
proof -
  assume "b \<noteq> 0"
  moreover have "\<not> Q\<^sup>2 * 100 / (981 * b\<^sup>2) < 0"
    by (simp add: not_less)
  ultimately show ?thesis
    by (simp add: compute_critical_depth_def g_def lit_def truediv_def pow_int_def pow_frac_def
        mul_def kind_of_def bind_err_def)
qed

section \<open>Loops\<close>

lemma py_while_inv:
  assumes run: "py_while c body s = Some (Inr t)"
    and init: "I s"
    and step: "\<And>s s'. I s \<Longrightarrow> c s \<Longrightarrow> body s = Continue s' \<Longrightarrow> I s'"
    and brk: "\<And>s s'. I s \<Longrightarrow> c s \<Longrightarrow> body s = Break s' \<Longrightarrow> P s'"
    and ex: "\<And>s. I s \<Longrightarrow> \<not> c s \<Longrightarrow> P s"
  shows "P t"
proof -
  have "c' = c \<longrightarrow> body' = body \<longrightarrow> I s \<longrightarrow> (\<forall>t. r = Inr t \<longrightarrow> P t)"
    if "py_while c' body' s = Some r" for c' body' s r
  proof (induction rule: py_while.raw_induct[OF _ that, case_names 1])
    case (1 w c' body' s r)
    show ?case
    proof (intro impI allI)
      fix t assume eq: "c' = c" "body' = body" and inv: "I s" and r: "r = Inr t"
      show "P t"
      proof (cases "c s")
        case False
        with 1(2) eq r have "t = s" by simp
        with ex[OF inv False] show ?thesis by simp
      next
        case True
        show ?thesis
        proof (cases "body s")
          case (Continue s')
          with 1(2) eq True have "w c body s' = Some r" by simp
          from 1(1)[OF this] step[OF inv True Continue] r show ?thesis by simp
        next
          case (Break s')
          with 1(2) eq True r have "t = s'" by simp
          with brk[OF inv True Break] show ?thesis by simp
        next
          case (Raise e)
          with 1(2) eq True r show ?thesis by simp
        qed
      qed
    qed
  qed
  then show ?thesis using run init by blast
qed

lemma py_while_total:
  fixes m :: "'st \<Rightarrow> nat"
  assumes init: "I s"
    and step: "\<And>s s'. I s \<Longrightarrow> c s \<Longrightarrow> body s = Continue s' \<Longrightarrow> I s' \<and> m s' < m s"
  shows "\<exists>r. py_while c body s = Some r"
  using init
proof (induction "m s" arbitrary: s rule: less_induct)
  case less
  show ?case
  proof (cases "c s")
    case False
    then show ?thesis by (subst py_while.simps) simp
  next
    case True
    show ?thesis
    proof (cases "body s")
      case (Continue s')
      with step[OF less.prems True] have "I s'" "m s' < m s" by auto
      from less.hyps[OF this(2) this(1)] show ?thesis
        using True Continue by (subst py_while.simps) simp
    qed (use True in \<open>subst py_while.simps, simp\<close>)+
  qed
qed


lemma grid_Suc: "grid e (Suc k) = grid e k @ [lit (real (Suc k) * e)]"
  by (simp add: grid_def)

lemma grid_0: "grid e 0 = [lit 0]"
  by (simp add: grid_def)

lemma length_grid: "length (grid e k) = Suc k"
  by (simp add: grid_def)

lemma march_measure_decreases:
  assumes "e \<noteq> 0" "v * sgn e < l"
  shows "march_measure e l (lit (v + e)) < march_measure e l (lit v)"
proof -
  have pos: "0 < \<bar>e\<bar>" using assms(1) by simp
  have "(v + e) * sgn e = v * sgn e + \<bar>e\<bar>"
    by (simp add: algebra_simps abs_sgn)
  then have "(l - (v + e) * sgn e) / \<bar>e\<bar> = ((l - v * sgn e) - \<bar>e\<bar>) / \<bar>e\<bar>"
    by simp
  also have "\<dots> = (l - v * sgn e) / \<bar>e\<bar> - 1"
    using pos by (simp add: diff_divide_distrib)
  finally have "(l - (v + e) * sgn e) / \<bar>e\<bar> = (l - v * sgn e) / \<bar>e\<bar> - 1" .
  then have eq: "\<lceil>(l - (v + e) * sgn e) / \<bar>e\<bar>\<rceil> = \<lceil>(l - v * sgn e) / \<bar>e\<bar>\<rceil> - 1"
    by simp
  have "0 < (l - v * sgn e) / \<bar>e\<bar>" using assms(2) pos by simp
  then have "0 < \<lceil>(l - v * sgn e) / \<bar>e\<bar>\<rceil>" by linarith
  with eq show ?thesis by (simp add: march_measure_def lit_def)
qed

lemma plot_profile_body_Continue:
  assumes "plot_profile_body Q b n S0 dx (x, y, xs, ys) = Continue s'"
  shows "\<exists>y'. s' = (add x dx, y', xs @ [add x dx], ys @ [y'])"
  using assms
  by (auto simp: plot_profile_body_def Let_def split: sum.splits if_splits)

lemma plot_profile_body_Break:
  assumes "plot_profile_body Q b n S0 dx (x, y, xs, ys) = Break s'"
  shows "s' = (x, y, xs, ys)"
  using assms
  by (auto simp: plot_profile_body_def Let_def split: sum.splits if_splits)

lemma backwater_from_weir_body_Continue:
  assumes "backwater_from_weir_body Q b n S0 dx (x, y, xs, ys, frs) = Continue s'"
  shows "\<exists>y' fr. s' = (add x dx, y', xs @ [add x dx], ys @ [y'], frs @ [fr]) \<and>
           \<not> le y' (lit 0) \<and> \<not> np_isnan y'"
  using assms
  by (auto simp: backwater_from_weir_body_def Let_def split: sum.splits if_splits)

lemma backwater_from_weir_body_Break:
  assumes "backwater_from_weir_body Q b n S0 dx (x, y, xs, ys, frs) = Break s'"
  shows "\<exists>x' y'. s' = (x', y', xs, ys, frs)"
  using assms
  by (auto simp: backwater_from_weir_body_def Let_def split: sum.splits if_splits)

lemma gvf_profile_body_Continue:
  assumes "gvf_profile_body Q b z n S0 dx (x, y, xs, ys) = Continue s'"
  shows "\<exists>y'. s' = (add x dx, y', xs @ [add x dx], ys @ [y']) \<and>
           \<not> le y' (lit 0) \<and> \<not> np_isnan y'"
  using assms
  by (auto simp: gvf_profile_body_def Let_def split: sum.splits if_splits)

lemma gvf_profile_body_Break:
  assumes "gvf_profile_body Q b z n S0 dx (x, y, xs, ys) = Break s'"
  shows "\<exists>x' y'. s' = (x', y', xs, ys)"
  using assms
  by (auto simp: gvf_profile_body_def Let_def split: sum.splits if_splits)

lemma gvf_backwater_body_Continue:
  assumes "gvf_backwater_body Q b n S0 dx (x, y, xs, ys) = Continue s'"
  shows "\<exists>y'. s' = (sub x dx, y', xs @ [sub x dx], ys @ [y']) \<and>
           \<not> le y' (lit 0) \<and> \<not> np_isnan y'"
  using assms
  by (auto simp: gvf_backwater_body_def Let_def split: sum.splits if_splits)

lemma gvf_backwater_body_Break:
  assumes "gvf_backwater_body Q b n S0 dx (x, y, xs, ys) = Break s'"
  shows "\<exists>x' y'. s' = (x', y', xs, ys)"
  using assms
  by (auto simp: gvf_backwater_body_def Let_def split: sum.splits if_splits)


lemma march_run:
  fixes px :: "'st \<Rightarrow> pynum" and pxs :: "'st \<Rightarrow> pynum list" and pys :: "'st \<Rightarrow> 'a list"
  assumes cont: "\<And>s s'. c s \<Longrightarrow> body s = Continue s' \<Longrightarrow>
                   px s' = add (px s) (lit e) \<and> pxs s' = pxs s @ [px s'] \<and>
                   length (pys s') = Suc (length (pys s))"
    and brk: "\<And>s s'. c s \<Longrightarrow> body s = Break s' \<Longrightarrow>
                   pxs s' = pxs s \<and> length (pys s') = length (pys s)"
    and cnd: "\<And>s v. c s \<Longrightarrow> px s = lit v \<Longrightarrow> v * sgn e < l"
    and e: "e \<noteq> 0"
    and init: "px s0 = lit (real k0 * e)" "pxs s0 = grid e k0" "length (pys s0) = Suc k0"
      "k0 \<noteq> 0 \<longrightarrow> real (k0 - 1) * \<bar>e\<bar> < l"
  shows "\<exists>r. py_while c body s0 = Some r \<and>
           (\<forall>t. r = Inr t \<longrightarrow>
              (\<exists>k. k0 \<le> k \<and> pxs t = grid e k \<and> length (pys t) = Suc k \<and>
                   (k \<noteq> 0 \<longrightarrow> real (k - 1) * \<bar>e\<bar> < l)))"
proof -
  define P where "P s \<longleftrightarrow> (\<exists>k. k0 \<le> k \<and> pxs s = grid e k \<and> length (pys s) = Suc k \<and>
      (k \<noteq> 0 \<longrightarrow> real (k - 1) * \<bar>e\<bar> < l))" for s
  define I where "I s \<longleftrightarrow> (\<exists>k. k0 \<le> k \<and> pxs s = grid e k \<and> length (pys s) = Suc k \<and>
      (k \<noteq> 0 \<longrightarrow> real (k - 1) * \<bar>e\<bar> < l) \<and> px s = lit (real k * e))" for s
  have I0: "I s0" unfolding I_def using init by (intro exI[of _ k0]) simp
  have step: "I s' \<and> march_measure e l (px s') < march_measure e l (px s)"
    if "I s" "c s" "body s = Continue s'" for s s'
  proof -
    from that(1) obtain k where k: "k0 \<le> k" "pxs s = grid e k" "px s = lit (real k * e)"
      "length (pys s) = Suc k"
      unfolding I_def by blast
    from cont[OF that(2,3)] k have x': "px s' = lit (real (Suc k) * e)"
      and xs': "pxs s' = grid e (Suc k)" and ys': "length (pys s') = Suc (Suc k)"
      by (simp_all add: add_lit grid_Suc algebra_simps)
    from cnd[OF that(2) k(3)] have lim: "real k * \<bar>e\<bar> < l"
      by (simp add: mult.assoc flip: abs_sgn)
    have "I s'" unfolding I_def using x' xs' ys' lim k(1) by (intro exI[of _ "Suc k"]) simp
    moreover have "march_measure e l (px s') < march_measure e l (px s)"
      using march_measure_decreases[OF e cnd[OF that(2) k(3)]] x' k(3)
      by (simp add: algebra_simps)
    ultimately show ?thesis by simp
  qed
  from py_while_total[of I s0 c body "\<lambda>s. march_measure e l (px s)", OF I0 step]
  obtain r where r: "py_while c body s0 = Some r" by blast
  have "P t" if "r = Inr t" for t
  proof (rule py_while_inv[of c body s0 t I P])
    show "py_while c body s0 = Some (Inr t)" using r that by simp
    show "I s0" by (rule I0)
    show "I s'" if "I s" "c s" "body s = Continue s'" for s s' using step[OF that] by simp
    show "P s'" if "I s" "c s" "body s = Break s'" for s s'
      using that brk[OF that(2,3)] unfolding I_def P_def by auto
    show "P s" if "I s" "\<not> c s" for s using that unfolding I_def P_def by auto
  qed
  with r show ?thesis unfolding P_def by blast
qed

lemma lt_lit: "lt (lit a) (lit b) \<longleftrightarrow> a < b"
  by (simp add: lt_def lit_def)

lemma gt_lit: "gt (lit a) (lit b) \<longleftrightarrow> b < a"
  by (simp add: gt_def lit_def)

lemma sorted_grid:
  assumes "0 < e"
  shows "sorted_wrt lt (grid e k)"
proof -
  have "sorted_wrt (\<lambda>i j. lt (lit (real i * e)) (lit (real j * e))) [0..<Suc k]"
    by (rule sorted_wrt_mono_rel[OF _ sorted_wrt_upt]) (use assms in \<open>simp add: lt_lit\<close>)
  then show ?thesis unfolding grid_def sorted_wrt_map .
qed

lemma sorted_rev_grid:
  assumes "e < 0"
  shows "sorted_wrt lt (rev (grid e k))"
proof -
  have "sorted_wrt (\<lambda>i j. lt (lit (real j * e)) (lit (real i * e))) [0..<Suc k]"
    by (rule sorted_wrt_mono_rel[OF _ sorted_wrt_upt]) (use assms in \<open>simp add: lt_lit\<close>)
  then show ?thesis unfolding grid_def sorted_wrt_rev sorted_wrt_map .
qed

lemma hd_grid: "hd (grid e k) = lit 0"
  by (simp add: grid_def upt_conv_Cons del: upt_Suc)

lemma last_grid: "last (grid e k) = lit (real k * e)"
  by (simp add: grid_def)

lemma hd_rev_grid: "hd (rev (grid e k)) = lit (real k * e)"
  by (simp add: hd_rev last_grid)

lemma last_rev_grid: "last (rev (grid e k)) = lit 0"
  by (simp add: last_rev hd_grid)



lemma plot_profile_loop:
  assumes d: "0 < d" and ys0: "length ys0 = Suc k0" and k0: "k0 \<noteq> 0 \<longrightarrow> real (k0 - 1) * d < l"
  shows "\<exists>r. py_while (\<lambda>(x, y, x_vals, y_vals). lt x (lit l)) (plot_profile_body Q b n S0 (lit d))
              (lit (real k0 * d), y0, grid d k0, ys0) = Some r \<and>
           (\<forall>x y xs ys. r = Inr (x, y, xs, ys) \<longrightarrow>
              (\<exists>k. k0 \<le> k \<and> xs = grid d k \<and> length ys = Suc k \<and>
                   (k \<noteq> 0 \<longrightarrow> real (k - 1) * d < l)))"
proof -
  have "\<exists>r. py_while (\<lambda>(x, y, x_vals, y_vals). lt x (lit l)) (plot_profile_body Q b n S0 (lit d))
              (lit (real k0 * d), y0, grid d k0, ys0) = Some r \<and>
           (\<forall>t. r = Inr t \<longrightarrow>
              (\<exists>k. k0 \<le> k \<and> (\<lambda>(x, y, xs, ys). xs) t = grid d k \<and>
                   length ((\<lambda>(x, y, xs, ys). ys) t) = Suc k \<and>
                   (k \<noteq> 0 \<longrightarrow> real (k - 1) * \<bar>d\<bar> < l)))"
  proof (rule march_run[where px = fst])
    show "fst s' = add (fst s) (lit d) \<and>
          (\<lambda>(x, y, xs, ys). xs) s' = (\<lambda>(x, y, xs, ys). xs) s @ [fst s'] \<and>
          length ((\<lambda>(x, y, xs, ys). ys) s') = Suc (length ((\<lambda>(x, y, xs, ys). ys) s))"
      if "plot_profile_body Q b n S0 (lit d) s = Continue s'" for s s'
      using plot_profile_body_Continue[of Q b n S0 "lit d"] that by (cases s) fastforce
    show "(\<lambda>(x, y, xs, ys). xs) s' = (\<lambda>(x, y, xs, ys). xs) s \<and>
          length ((\<lambda>(x, y, xs, ys). ys) s') = length ((\<lambda>(x, y, xs, ys). ys) s)"
      if "plot_profile_body Q b n S0 (lit d) s = Break s'" for s s'
      using plot_profile_body_Break[of Q b n S0 "lit d"] that by (cases s) fastforce
    show "v * sgn d < l" if "(case s of (x, y, x_vals, y_vals) \<Rightarrow> lt x (lit l))" "fst s = lit v"
      for s v using that d by (cases s) (simp add: lt_lit)
  qed (use d ys0 k0 in simp_all)
  then show ?thesis using d by fastforce
qed


lemmas num_defs = add_def sub_def mul_def truediv_def pow_int_def pow_frac_def pabs_def
  np_sqrt_def np_isnan_def lt_def le_def gt_def lit_def kind_of_def fl_sub_def g_def

lemma Fr_never_raises:
  "Fr Q b y = Inr (Np (fl_div (val Q) (fl_mul (fl_mul (val b) (val y)) (fl_sqrt (fl_mul (Fin 9.81) (val y))))))"
  by (simp add: Fr_def num_defs)

lemma denom_np: "sub (lit 1) (pow_int (Np f) 2) = Np (fl_sub (Fin 1) (fl_power f 2))"
  by (simp add: num_defs)

lemma froude_sq:
  assumes "0 < v" "bb \<noteq> 0"
  shows "(q / (bb * v * sqrt (9.81 * v)))\<^sup>2 = q\<^sup>2 / (9.81 * bb\<^sup>2 * v ^ 3)"
proof -
  define r where "r = sqrt (9.81 * v)"
  have r2: "r\<^sup>2 = 9.81 * v" using assms(1) by (simp add: r_def)
  have "(q / (bb * v * r))\<^sup>2 = q\<^sup>2 / (bb\<^sup>2 * v\<^sup>2 * r\<^sup>2)"
    by (simp add: power_divide power_mult_distrib)
  also have "\<dots> = q\<^sup>2 / (9.81 * bb\<^sup>2 * v ^ 3)"
    unfolding r2 by (simp add: power3_eq_cube power2_eq_square)
  finally show ?thesis by (simp add: r_def)
qed

lemma Fr_fin:
  assumes "val y = Fin v" "0 < v" "bb \<noteq> 0"
  shows "Fr (lit q) (lit bb) y = Inr (Np (Fin (q / (bb * v * sqrt (9.81 * v)))))"
  using assms by (simp add: Fr_never_raises lit_def)

lemma Sf_fin:
  assumes "val y = Fin v" "0 < v" "bb \<noteq> 0"
  shows "Sf y (lit q) (lit bb) (lit nn) =
           Inr (kind_of y y (Fin (nn\<^sup>2 * q\<^sup>2 / ((bb * v)\<^sup>2 * v powr (4/3)))))"
  using assms by (cases y) (simp_all add: Sf_def Let_def num_defs)


lemma plot_profile_body_fin:
  assumes y: "val y = Fin v" "0 < v" and b: "bb \<noteq> 0"
    and F: "F = q\<^sup>2 / (9.81 * bb\<^sup>2 * v ^ 3)"
    and SF: "SF = nn\<^sup>2 * q\<^sup>2 / ((bb * v)\<^sup>2 * v powr (4/3))"
    and y': "y' = Np (Fin (v + (s0 - SF) / (1 - F) * d))"
  shows "plot_profile_body (lit q) (lit bb) (lit nn) (lit s0) (lit d) (x, y, xs, ys) =
     (if \<bar>1 - F\<bar> < 0.000001 then Break (x, y, xs, ys)
      else Continue (add x (lit d), y', xs @ [add x (lit d)], ys @ [y']))"
proof -
  define f where "f = q / (bb * v * sqrt (9.81 * v))"
  have fr: "Fr (lit q) (lit bb) y = Inr (Np (Fin f))"
    unfolding f_def by (rule Fr_fin[OF y b])
  have den: "sub (lit 1) (pow_int (Np (Fin f)) 2) = Np (Fin (1 - F))"
    unfolding denom_np F f_def using froude_sq[OF y(2) b, of q] by (simp add: fl_sub_def)
  have sf: "Sf y (lit q) (lit bb) (lit nn) = Inr (kind_of y y (Fin SF))"
    unfolding SF by (rule Sf_fin[OF y b])
  have sing: "lt (pabs (Np (Fin (1 - F)))) (lit 0.000001) \<longleftrightarrow> \<bar>1 - F\<bar> < 0.000001"
    by (simp add: num_defs)
  have dv: "truediv (sub (lit s0) (kind_of y y (Fin SF))) (Np (Fin (1 - F))) =
      Inr (Np (Fin ((s0 - SF) / (1 - F))))" if "\<not> \<bar>1 - F\<bar> < 0.000001"
    using that by (cases y) (auto simp: num_defs)
  have upd: "add y (mul (Np (Fin ((s0 - SF) / (1 - F)))) (lit d)) = y'"
    using y(1) unfolding y' by (cases y) (simp_all add: num_defs)
  show ?thesis
  proof (cases "\<bar>1 - F\<bar> < 0.000001")
    case True
    with sing have "lt (pabs (Np (Fin (1 - F)))) (lit 0.000001)" by simp
    then show ?thesis
      unfolding plot_profile_body_def prod.case fr sum.case Let_def den using True by simp
  next
    case False
    with sing have "\<not> lt (pabs (Np (Fin (1 - F)))) (lit 0.000001)" by simp
    then show ?thesis
      unfolding plot_profile_body_def prod.case fr sum.case Let_def den sf
      using False dv[OF False] upd by simp
  qed
qed


lemma gvf_backwater_body_fin:
  assumes y: "val y = Fin v" "0 < v" and b: "bb \<noteq> 0"
    and F: "F = q\<^sup>2 / (9.81 * bb\<^sup>2 * v ^ 3)"
    and SF: "SF = nn\<^sup>2 * q\<^sup>2 / ((bb * v)\<^sup>2 * v powr (4/3))"
    and v': "v' = v - (s0 - SF) / (1 - F) * d"
  shows "gvf_backwater_body (lit q) (lit bb) (lit nn) (lit s0) (lit d) (x, y, xs, ys) =
     (if \<bar>1 - F\<bar> < 0.000001 then Break (x, y, xs, ys)
      else if v' \<le> 0 then Break (sub x (lit d), Np (Fin v'), xs, ys)
      else Continue (sub x (lit d), Np (Fin v'), xs @ [sub x (lit d)], ys @ [Np (Fin v')]))"
proof -
  define f where "f = q / (bb * v * sqrt (9.81 * v))"
  have fr: "Fr (lit q) (lit bb) y = Inr (Np (Fin f))"
    unfolding f_def by (rule Fr_fin[OF y b])
  have den: "sub (lit 1) (pow_int (Np (Fin f)) 2) = Np (Fin (1 - F))"
    unfolding denom_np F f_def using froude_sq[OF y(2) b, of q] by (simp add: fl_sub_def)
  have sf: "Sf y (lit q) (lit bb) (lit nn) = Inr (kind_of y y (Fin SF))"
    unfolding SF by (rule Sf_fin[OF y b])
  have sing: "lt (pabs (Np (Fin (1 - F)))) (lit 0.000001) \<longleftrightarrow> \<bar>1 - F\<bar> < 0.000001"
    by (simp add: num_defs)
  have dv: "truediv (sub (lit s0) (kind_of y y (Fin SF))) (Np (Fin (1 - F))) =
      Inr (Np (Fin ((s0 - SF) / (1 - F))))" if "\<not> \<bar>1 - F\<bar> < 0.000001"
    using that by (cases y) (auto simp: num_defs)
  have upd: "sub y (mul (Np (Fin ((s0 - SF) / (1 - F)))) (lit d)) = Np (Fin v')"
    using y(1) unfolding v' by (cases y) (simp_all add: num_defs)
  have chk: "le (Np (Fin v')) (lit 0) \<or> np_isnan (Np (Fin v')) \<longleftrightarrow> v' \<le> 0"
    by (simp add: num_defs)
  show ?thesis
  proof (cases "\<bar>1 - F\<bar> < 0.000001")
    case True
    with sing have "lt (pabs (Np (Fin (1 - F)))) (lit 0.000001)" by simp
    then show ?thesis
      unfolding gvf_backwater_body_def prod.case fr sum.case Let_def den using True by simp
  next
    case False
    with sing have "\<not> lt (pabs (Np (Fin (1 - F)))) (lit 0.000001)" by simp
    then show ?thesis
      unfolding gvf_backwater_body_def prod.case fr sum.case Let_def den sf
      using False dv[OF False] upd chk by simp
  qed
qed

lemma backwater_from_weir_body_fin:
  assumes y: "val y = Fin v" "0 < v" and b: "bb \<noteq> 0"
    and F: "F = q\<^sup>2 / (9.81 * bb\<^sup>2 * v ^ 3)"
    and SF: "SF = nn\<^sup>2 * q\<^sup>2 / ((bb * v)\<^sup>2 * v powr (4/3))"
    and v': "v' = v + (s0 - SF) / (if \<bar>1 - F\<bar> < 0.000001 then 0.000001 else 1 - F) * d"
  shows "\<exists>y' fr. val y' = Fin v' \<and>
     backwater_from_weir_body (lit q) (lit bb) (lit nn) (lit s0) (lit d) (x, y, xs, ys, frs) =
     (if v' \<le> 0 then Break (add x (lit d), y', xs, ys, frs)
      else Continue (add x (lit d), y', xs @ [add x (lit d)], ys @ [y'], frs @ [fr]))"
proof -
  define f where "f = q / (bb * v * sqrt (9.81 * v))"
  have fr: "Fr (lit q) (lit bb) y = Inr (Np (Fin f))"
    unfolding f_def by (rule Fr_fin[OF y b])
  have den: "sub (lit 1) (pow_int (Np (Fin f)) 2) = Np (Fin (1 - F))"
    unfolding denom_np F f_def using froude_sq[OF y(2) b, of q] by (simp add: fl_sub_def)
  have sf: "Sf y (lit q) (lit bb) (lit nn) = Inr (kind_of y y (Fin SF))"
    unfolding SF by (rule Sf_fin[OF y b])
  have sing: "lt (pabs (Np (Fin (1 - F)))) (lit 0.000001) \<longleftrightarrow> \<bar>1 - F\<bar> < 0.000001"
    by (simp add: num_defs)
  show ?thesis
  proof (cases "\<bar>1 - F\<bar> < 0.000001")
    case True
    define y' where "y' = kind_of y y (Fin v')"
    have s: "lt (pabs (Np (Fin (1 - F)))) (lit 0.000001)" using sing True by simp
    have dv: "truediv (sub (lit s0) (kind_of y y (Fin SF))) (lit 0.000001) =
        Inr (kind_of y y (Fin ((s0 - SF) / 0.000001)))"
      by (cases y) (simp_all add: num_defs)
    have upd: "add y (mul (kind_of y y (Fin ((s0 - SF) / 0.000001))) (lit d)) = y'"
      using y(1) True unfolding v' y'_def by (cases y) (simp_all add: num_defs)
    have chk: "le y' (lit 0) \<or> np_isnan y' \<longleftrightarrow> v' \<le> 0"
      unfolding y'_def by (cases y) (simp_all add: num_defs)
    have "val y' = Fin v'" unfolding y'_def by (cases y) (simp_all add: num_defs)
    moreover have "backwater_from_weir_body (lit q) (lit bb) (lit nn) (lit s0) (lit d)
        (x, y, xs, ys, frs) =
       (if v' \<le> 0 then Break (add x (lit d), y', xs, ys, frs)
        else Continue (add x (lit d), y', xs @ [add x (lit d)], ys @ [y'], frs @ [Np (Fin f)]))"
      unfolding backwater_from_weir_body_def prod.case fr sum.case Let_def den sf
      using s dv upd chk by simp
    ultimately show ?thesis by blast
  next
    case False
    define y' where "y' = Np (Fin v')"
    have s: "\<not> lt (pabs (Np (Fin (1 - F)))) (lit 0.000001)" using sing False by simp
    have dv: "truediv (sub (lit s0) (kind_of y y (Fin SF))) (Np (Fin (1 - F))) =
        Inr (Np (Fin ((s0 - SF) / (1 - F))))"
      using False by (cases y) (auto simp: num_defs)
    have upd: "add y (mul (Np (Fin ((s0 - SF) / (1 - F)))) (lit d)) = y'"
      using y(1) False unfolding v' y'_def by (cases y) (simp_all add: num_defs)
    have chk: "le y' (lit 0) \<or> np_isnan y' \<longleftrightarrow> v' \<le> 0"
      unfolding y'_def by (simp add: num_defs)
    have "val y' = Fin v'" unfolding y'_def by simp
    moreover have "backwater_from_weir_body (lit q) (lit bb) (lit nn) (lit s0) (lit d)
        (x, y, xs, ys, frs) =
       (if v' \<le> 0 then Break (add x (lit d), y', xs, ys, frs)
        else Continue (add x (lit d), y', xs @ [add x (lit d)], ys @ [y'], frs @ [Np (Fin f)]))"
      unfolding backwater_from_weir_body_def prod.case fr sum.case Let_def den sf
      using s dv upd chk by simp
    ultimately show ?thesis by blast
  qed
qed


lemma np_right [simp]:
  "add a (Np w) = Np (fl_add (val a) w)"
  "sub a (Np w) = Np (fl_sub (val a) w)"
  "mul a (Np w) = Np (fl_mul (val a) w)"
  "truediv a (Np w) = Inr (Np (fl_div (val a) w))"
  by (cases a; simp add: num_defs)+

lemma np_left [simp]:
  "add (Np w) a = Np (fl_add w (val a))"
  "sub (Np w) a = Np (fl_sub w (val a))"
  "mul (Np w) a = Np (fl_mul w (val a))"
  "truediv (Np w) a = Inr (Np (fl_div w (val a)))"
  "pow_int (Np w) k = Np (fl_power w k)"
  "pow_frac (Np w) r = Np (fl_powr w r)"
  "pabs (Np w) = Np (fl_abs w)"
  by (cases a; simp add: num_defs)+

lemma Sf_np: "\<exists>w'. Sf (Np w) Q b n = Inr (Np w')"
  by (simp add: Sf_def Let_def)

lemma Fr_np: "\<exists>w'. Fr Q b y = Inr (Np w')"
  by (simp add: Fr_never_raises)

lemma plot_profile_body_no_raise_np:
  "plot_profile_body Q b n S0 dx (x, Np w, xs, ys) \<noteq> Raise e"
  using Sf_np[of w Q b n] Fr_np[of Q b "Np w"]
  by (auto simp: plot_profile_body_def Let_def split: if_splits)

lemma plot_profile_body_keeps_np:
  assumes "plot_profile_body Q b n S0 dx (x, y, xs, ys) = Continue (x', y', xs', ys')"
  shows "\<exists>w'. y' = Np w'"
  using assms Fr_np[of Q b y]
  by (auto simp: plot_profile_body_def Let_def split: sum.splits if_splits)

lemma py_while_result:
  assumes run: "py_while c body s = Some r"
    and init: "I s"
    and step: "\<And>s s'. I s \<Longrightarrow> c s \<Longrightarrow> body s = Continue s' \<Longrightarrow> I s'"
    and brk: "\<And>s s'. I s \<Longrightarrow> c s \<Longrightarrow> body s = Break s' \<Longrightarrow> P (Inr s')"
    and rs: "\<And>s e. I s \<Longrightarrow> c s \<Longrightarrow> body s = Raise e \<Longrightarrow> P (Inl e)"
    and ex: "\<And>s. I s \<Longrightarrow> \<not> c s \<Longrightarrow> P (Inr s)"
  shows "P r"
proof -
  have "c' = c \<longrightarrow> body' = body \<longrightarrow> I s \<longrightarrow> P r"
    if "py_while c' body' s = Some r" for c' body' s r
  proof (induction rule: py_while.raw_induct[OF _ that, case_names 1])
    case (1 w c' body' s r)
    show ?case
    proof (intro impI)
      assume eq: "c' = c" "body' = body" and inv: "I s"
      show "P r"
      proof (cases "c s")
        case False
        with 1(2) eq have "r = Inr s" by simp
        with ex[OF inv False] show ?thesis by simp
      next
        case True
        show ?thesis
        proof (cases "body s")
          case (Continue s')
          with 1(2) eq True have "w c body s' = Some r" by simp
          from 1(1)[OF this] step[OF inv True Continue] show ?thesis by simp
        next
          case (Break s')
          with 1(2) eq True have "r = Inr s'" by simp
          with brk[OF inv True Break] show ?thesis by simp
        next
          case (Raise e)
          with 1(2) eq True have "r = Inl e" by simp
          with rs[OF inv True Raise] show ?thesis by simp
        qed
      qed
    qed
  qed
  then show ?thesis using run init by blast
qed

lemma march4:
  fixes body :: "march \<Rightarrow> march flow"
  assumes cont: "\<And>x y xs ys s'. body (x, y, xs, ys) = Continue s' \<Longrightarrow>
                   \<exists>y'. s' = (add x (lit e), y', xs @ [add x (lit e)], ys @ [y'])"
    and brk: "\<And>x y xs ys s'. body (x, y, xs, ys) = Break s' \<Longrightarrow> \<exists>x' y'. s' = (x', y', xs, ys)"
    and cnd: "\<And>v y xs ys. c (lit v, y, xs, ys) \<Longrightarrow> v * sgn e < l"
    and e: "e \<noteq> 0"
    and ys0: "length ys0 = Suc k0" and k0: "k0 \<noteq> 0 \<longrightarrow> real (k0 - 1) * \<bar>e\<bar> < l"
  shows "\<exists>r. py_while c body (lit (real k0 * e), y0, grid e k0, ys0) = Some r \<and>
           (\<forall>x y xs ys. r = Inr (x, y, xs, ys) \<longrightarrow>
              (\<exists>k. k0 \<le> k \<and> xs = grid e k \<and> length ys = Suc k \<and>
                   (k \<noteq> 0 \<longrightarrow> real (k - 1) * \<bar>e\<bar> < l)))"
proof -
  have "\<exists>r. py_while c body (lit (real k0 * e), y0, grid e k0, ys0) = Some r \<and>
           (\<forall>t. r = Inr t \<longrightarrow>
              (\<exists>k. k0 \<le> k \<and> (\<lambda>(x, y, xs, ys). xs) t = grid e k \<and>
                   length ((\<lambda>(x, y, xs, ys). ys) t) = Suc k \<and>
                   (k \<noteq> 0 \<longrightarrow> real (k - 1) * \<bar>e\<bar> < l)))"
  proof (rule march_run[where px = fst])
    show "fst s' = add (fst s) (lit e) \<and>
          (\<lambda>(x, y, xs, ys). xs) s' = (\<lambda>(x, y, xs, ys). xs) s @ [fst s'] \<and>
          length ((\<lambda>(x, y, xs, ys). ys) s') = Suc (length ((\<lambda>(x, y, xs, ys). ys) s))"
      if "body s = Continue s'" for s s'
      using cont that by (cases s) fastforce
    show "(\<lambda>(x, y, xs, ys). xs) s' = (\<lambda>(x, y, xs, ys). xs) s \<and>
          length ((\<lambda>(x, y, xs, ys). ys) s') = length ((\<lambda>(x, y, xs, ys). ys) s)"
      if "body s = Break s'" for s s'
      using brk that by (cases s) fastforce
    show "v * sgn e < l" if "c s" "fst s = lit v" for s v
      using that cnd by (cases s) simp
  qed (use e ys0 k0 in simp_all)
  then show ?thesis by fastforce
qed

lemma march5:
  fixes body :: "march_fr \<Rightarrow> march_fr flow"
  assumes cont: "\<And>x y xs ys frs s'. body (x, y, xs, ys, frs) = Continue s' \<Longrightarrow>
                   \<exists>y' fr. s' = (add x (lit e), y', xs @ [add x (lit e)], ys @ [y'], frs @ [fr])"
    and brk: "\<And>x y xs ys frs s'. body (x, y, xs, ys, frs) = Break s' \<Longrightarrow>
                   \<exists>x' y'. s' = (x', y', xs, ys, frs)"
    and cnd: "\<And>v y xs ys frs. c (lit v, y, xs, ys, frs) \<Longrightarrow> v * sgn e < l"
    and e: "e \<noteq> 0"
    and ys0: "length ys0 = Suc k0" and k0: "k0 \<noteq> 0 \<longrightarrow> real (k0 - 1) * \<bar>e\<bar> < l"
  shows "\<exists>r. py_while c body (lit (real k0 * e), y0, grid e k0, ys0, frs0) = Some r \<and>
           (\<forall>x y xs ys frs. r = Inr (x, y, xs, ys, frs) \<longrightarrow>
              (\<exists>k. k0 \<le> k \<and> xs = grid e k \<and> length ys = Suc k \<and>
                   (k \<noteq> 0 \<longrightarrow> real (k - 1) * \<bar>e\<bar> < l)))"
proof -
  have "\<exists>r. py_while c body (lit (real k0 * e), y0, grid e k0, ys0, frs0) = Some r \<and>
           (\<forall>t. r = Inr t \<longrightarrow>
              (\<exists>k. k0 \<le> k \<and> (\<lambda>(x, y, xs, ys, frs). xs) t = grid e k \<and>
                   length ((\<lambda>(x, y, xs, ys, frs). ys) t) = Suc k \<and>
                   (k \<noteq> 0 \<longrightarrow> real (k - 1) * \<bar>e\<bar> < l)))"
  proof (rule march_run[where px = fst])
    show "fst s' = add (fst s) (lit e) \<and>
          (\<lambda>(x, y, xs, ys, frs). xs) s' = (\<lambda>(x, y, xs, ys, frs). xs) s @ [fst s'] \<and>
          length ((\<lambda>(x, y, xs, ys, frs). ys) s') = Suc (length ((\<lambda>(x, y, xs, ys, frs). ys) s))"
      if "body s = Continue s'" for s s'
      using cont that by (cases s) fastforce
    show "(\<lambda>(x, y, xs, ys, frs). xs) s' = (\<lambda>(x, y, xs, ys, frs). xs) s \<and>
          length ((\<lambda>(x, y, xs, ys, frs). ys) s') = length ((\<lambda>(x, y, xs, ys, frs). ys) s)"
      if "body s = Break s'" for s s'
      using brk that by (cases s) fastforce
    show "v * sgn e < l" if "c s" "fst s = lit v" for s v
      using that cnd by (cases s) simp
  qed (use e ys0 k0 in simp_all)
  then show ?thesis by fastforce
qed


lemma plot_profile_run:
  assumes d: "0 < d"
  shows "\<exists>r. plot_profile slv Q b n S0 (lit l) (lit d) = Some r \<and>
           (\<forall>xs ys yc yn. r = Inr (xs, ys, yc, yn) \<longrightarrow>
              (\<exists>k. xs = grid d k \<and> length ys = Suc k \<and> (k \<noteq> 0 \<longrightarrow> real (k - 1) * d < l)))"
proof (cases "compute_critical_depth Q b")
  case (Inl e)
  then show ?thesis by (simp add: plot_profile_def)
next
  case yc: (Inr y_crit)
  show ?thesis
  proof (cases "compute_normal_depth_interactive slv Q b n S0")
    case (Inl e)
    then show ?thesis using yc by (simp add: plot_profile_def)
  next
    case yn: (Inr y_normal)
    from plot_profile_loop[OF d, of "[mul y_crit (lit 1.05)]" 0 l Q b n S0 "mul y_crit (lit 1.05)"]
    obtain r where r: "py_while (\<lambda>(x, y, x_vals, y_vals). lt x (lit l))
          (plot_profile_body Q b n S0 (lit d))
          (lit 0, mul y_crit (lit 1.05), [lit 0], [mul y_crit (lit 1.05)]) = Some r"
      and post: "\<And>x y xs ys. r = Inr (x, y, xs, ys) \<Longrightarrow>
          \<exists>k. xs = grid d k \<and> length ys = Suc k \<and> (k \<noteq> 0 \<longrightarrow> real (k - 1) * d < l)"
      by (auto simp: grid_0)
    show ?thesis
      using yc yn r post by (cases r) (auto simp: plot_profile_def Let_def)
  qed
qed

lemma backwater_from_weir_loop:
  assumes d: "0 < d" and ys0: "length ys0 = Suc k0" and k0: "k0 \<noteq> 0 \<longrightarrow> real (k0 - 1) * d < l"
  shows "\<exists>r. py_while (\<lambda>(x, y, x_vals, y_vals, fr_vals). lt x (lit l))
              (backwater_from_weir_body Q b n S0 (lit d))
              (lit (real k0 * d), y0, grid d k0, ys0, frs0) = Some r \<and>
           (\<forall>x y xs ys frs. r = Inr (x, y, xs, ys, frs) \<longrightarrow>
              (\<exists>k. k0 \<le> k \<and> xs = grid d k \<and> length ys = Suc k \<and>
                   (k \<noteq> 0 \<longrightarrow> real (k - 1) * d < l)))"
  using march5[where body = "backwater_from_weir_body Q b n S0 (lit d)" and e = d and l = l
      and c = "\<lambda>(x, y, x_vals, y_vals, fr_vals). lt x (lit l)" and ?ys0.0 = ys0 and ?k0.0 = k0
      and ?y0.0 = y0 and ?frs0.0 = frs0]
    backwater_from_weir_body_Continue[of Q b n S0 "lit d"]
    backwater_from_weir_body_Break[of Q b n S0 "lit d"] d ys0 k0
  by (simp add: lt_lit) blast

lemma gvf_profile_loop:
  assumes d: "0 < d" and ys0: "length ys0 = Suc k0" and k0: "k0 \<noteq> 0 \<longrightarrow> real (k0 - 1) * d < l"
  shows "\<exists>r. py_while (\<lambda>(x, y, x_vals, y_vals). lt x (lit l))
              (gvf_profile_body Q b z n S0 (lit d))
              (lit (real k0 * d), y0, grid d k0, ys0) = Some r \<and>
           (\<forall>x y xs ys. r = Inr (x, y, xs, ys) \<longrightarrow>
              (\<exists>k. k0 \<le> k \<and> xs = grid d k \<and> length ys = Suc k \<and>
                   (k \<noteq> 0 \<longrightarrow> real (k - 1) * d < l)))"
  using march4[where body = "gvf_profile_body Q b z n S0 (lit d)" and e = d and l = l
      and c = "\<lambda>(x, y, x_vals, y_vals). lt x (lit l)" and ?ys0.0 = ys0 and ?k0.0 = k0
      and ?y0.0 = y0]
    gvf_profile_body_Continue[of Q b z n S0 "lit d"]
    gvf_profile_body_Break[of Q b z n S0 "lit d"] d ys0 k0
  by (simp add: lt_lit) blast

lemma gvf_backwater_loop:
  assumes d: "0 < d" and ys0: "length ys0 = Suc k0"
    and k0: "k0 \<noteq> 0 \<longrightarrow> real (k0 - 1) * d < 1000"
  shows "\<exists>r. py_while (\<lambda>(x, y, x_vals, y_vals). gt y y_stop \<and> gt x (lit (- 1000)))
              (gvf_backwater_body Q b n S0 (lit d))
              (lit (real k0 * (- d)), y0, grid (- d) k0, ys0) = Some r \<and>
           (\<forall>x y xs ys. r = Inr (x, y, xs, ys) \<longrightarrow>
              (\<exists>k. k0 \<le> k \<and> xs = grid (- d) k \<and> length ys = Suc k \<and>
                   (k \<noteq> 0 \<longrightarrow> real (k - 1) * d < 1000)))"
  using march4[where body = "gvf_backwater_body Q b n S0 (lit d)" and e = "- d" and l = 1000
      and c = "\<lambda>(x, y, x_vals, y_vals). gt y y_stop \<and> gt x (lit (- 1000))"
      and ?ys0.0 = ys0 and ?k0.0 = k0 and ?y0.0 = y0]
    gvf_backwater_body_Continue[of Q b n S0 "lit d"]
    gvf_backwater_body_Break[of Q b n S0 "lit d"] d ys0 k0
  by (simp add: gt_lit sub_lit) blast


lemma compute_backwater_from_weir_run:
  assumes d: "0 < d"
  shows "\<exists>r. compute_backwater_from_weir Q b n S0 (lit d) (lit l) = Some r \<and>
           (\<forall>xs ys yc frs. r = Inr (xs, ys, yc, frs) \<longrightarrow>
              (\<exists>k. xs = grid d k \<and> length ys = Suc k \<and> (k \<noteq> 0 \<longrightarrow> real (k - 1) * d < l)))"
proof (cases "compute_critical_depth Q b")
  case (Inl e)
  then show ?thesis by (simp add: compute_backwater_from_weir_def)
next
  case yc: (Inr y_crit)
  from backwater_from_weir_loop[OF d, of "[mul y_crit (lit 1.01)]" 0 l Q b n S0
      "mul y_crit (lit 1.01)" "[]"]
  obtain r where r: "py_while (\<lambda>(x, y, x_vals, y_vals, fr_vals). lt x (lit l))
        (backwater_from_weir_body Q b n S0 (lit d))
        (lit 0, mul y_crit (lit 1.01), [lit 0], [mul y_crit (lit 1.01)], []) = Some r"
    and post: "\<And>x y xs ys frs. r = Inr (x, y, xs, ys, frs) \<Longrightarrow>
        \<exists>k. xs = grid d k \<and> length ys = Suc k \<and> (k \<noteq> 0 \<longrightarrow> real (k - 1) * d < l)"
    by (auto simp: grid_0)
  show ?thesis
    using yc r post by (cases r) (auto simp: compute_backwater_from_weir_def Let_def)
qed

lemma compute_gvf_profile_run:
  assumes d: "0 < d"
  shows "\<exists>r. compute_gvf_profile slv Q b z n S0 (lit d) (lit l) = Some r \<and>
           (\<forall>xs ys yc path. r = Inr (xs, ys, yc, path) \<longrightarrow>
              (\<exists>k. xs = grid d k \<and> length ys = Suc k \<and> (k \<noteq> 0 \<longrightarrow> real (k - 1) * d < l)))"
proof (cases "compute_critical_depth_trapezoidal slv Q b z")
  case (Inl e)
  then show ?thesis by (simp add: compute_gvf_profile_def)
next
  case yc: (Inr y_crit)
  from gvf_profile_loop[OF d, of "[mul y_crit (lit 1.01)]" 0 l Q b z n S0 "mul y_crit (lit 1.01)"]
  obtain r where r: "py_while (\<lambda>(x, y, x_vals, y_vals). lt x (lit l))
        (gvf_profile_body Q b z n S0 (lit d))
        (lit 0, mul y_crit (lit 1.01), [lit 0], [mul y_crit (lit 1.01)]) = Some r"
    and post: "\<And>x y xs ys. r = Inr (x, y, xs, ys) \<Longrightarrow>
        \<exists>k. xs = grid d k \<and> length ys = Suc k \<and> (k \<noteq> 0 \<longrightarrow> real (k - 1) * d < l)"
    by (auto simp: grid_0)
  show ?thesis
    using yc r post by (cases r) (auto simp: compute_gvf_profile_def Let_def)
qed

lemma compute_gvf_backwater_run:
  assumes d: "0 < d"
  shows "\<exists>r. compute_gvf_backwater Q b n S0 y_end y_stop (lit d) = Some r \<and>
           (\<forall>xs ys. r = Inr (xs, ys) \<longrightarrow>
              (\<exists>k. xs = rev (grid (- d) k) \<and> length ys = Suc k \<and>
                   (k \<noteq> 0 \<longrightarrow> real (k - 1) * d < 1000)))"
proof -
  from gvf_backwater_loop[OF d, of "[y_end]" 0 y_stop Q b n S0 y_end]
  obtain r where r: "py_while (\<lambda>(x, y, x_vals, y_vals). gt y y_stop \<and> gt x (lit (- 1000)))
        (gvf_backwater_body Q b n S0 (lit d)) (lit 0, y_end, [lit 0], [y_end]) = Some r"
    and post: "\<And>x y xs ys. r = Inr (x, y, xs, ys) \<Longrightarrow>
        \<exists>k. xs = grid (- d) k \<and> length ys = Suc k \<and> (k \<noteq> 0 \<longrightarrow> real (k - 1) * d < 1000)"
    by (auto simp: grid_0)
  show ?thesis
    using r post by (cases r) (auto simp: compute_gvf_backwater_def)
qed

lemma py_while_Continue: "body s = Continue s' \<Longrightarrow> c s \<Longrightarrow> py_while c body s = py_while c body s'"
  by (subst py_while.simps) simp

lemma py_while_Break: "body s = Break s' \<Longrightarrow> c s \<Longrightarrow> py_while c body s = Some (Inr s')"
  by (subst py_while.simps) simp

lemma py_while_Raise: "body s = Raise e \<Longrightarrow> c s \<Longrightarrow> py_while c body s = Some (Inl e)"
  by (subst py_while.simps) simp


lemma cube_powr_third: "0 \<le> (a::real) \<Longrightarrow> (a powr (1/3)) ^ 3 = a"
  by (cases "a = 0") (simp_all add: powr_power)

lemma start_froude:
  fixes q bb f c :: real
  assumes "q \<noteq> 0" "bb \<noteq> 0" "f \<noteq> 0" and c: "c = (q\<^sup>2 / (9.81 * bb\<^sup>2)) powr (1/3)"
  shows "q\<^sup>2 / (9.81 * bb\<^sup>2 * (c * f) ^ 3) = 1 / f ^ 3" and "0 < c"
proof -
  define a where "a = q\<^sup>2 / (9.81 * bb\<^sup>2)"
  have a: "0 < a" using assms(1,2) by (simp add: a_def)
  have c3: "c ^ 3 = a" unfolding c a_def[symmetric] using a by (simp add: cube_powr_third)
  show "0 < c" unfolding c a_def[symmetric] using a by simp
  have "q\<^sup>2 / (9.81 * bb\<^sup>2 * (c * f) ^ 3) = a / (c ^ 3 * f ^ 3)"
    by (simp add: a_def power_mult_distrib)
  also have "\<dots> = 1 / f ^ 3" unfolding c3 using a by simp
  finally show "q\<^sup>2 / (9.81 * bb\<^sup>2 * (c * f) ^ 3) = 1 / f ^ 3" .
qed

lemma normal_depth_interactive_seed:
  "bb \<noteq> 0 \<Longrightarrow> \<exists>yn. compute_normal_depth_interactive seed_solver (lit q) (lit bb) n S0 = Inr yn"
  by (simp add: compute_normal_depth_interactive_def fsolve_first_def seed_solver_def
      truediv_def lit_def pow_int_def mul_def g_def kind_of_def bind_err_def Let_def)

lemma grid_length_minus: "xs = grid e k \<Longrightarrow> length xs - 1 = k"
  by (simp add: length_grid)

lemma gvf_backwater_body_np:
  "gvf_backwater_body Q b n S0 dx (x, Np w, xs, ys) \<noteq> Raise e"
  "gvf_backwater_body Q b n S0 dx (x, Np w, xs, ys) = Continue (x', y', xs', ys') \<Longrightarrow> \<exists>w'. y' = Np w'"
  using Sf_np[of w Q b n] Fr_np[of Q b "Np w"]
  by (auto simp: gvf_backwater_body_def Let_def split: if_splits)

lemma backwater_from_weir_body_np:
  "backwater_from_weir_body Q b n S0 dx (x, Np w, xs, ys, frs) \<noteq> Raise e"
  "backwater_from_weir_body Q b n S0 dx (x, Np w, xs, ys, frs) = Continue (x', y', xs', ys', frs')
     \<Longrightarrow> \<exists>w'. y' = Np w'"
  using Sf_np[of w Q b n] Fr_np[of Q b "Np w"]
  by (auto simp: backwater_from_weir_body_def Let_def num_defs split: if_splits)




lemma py_while_np_no_raise:
  fixes body :: "march \<Rightarrow> march flow"
  assumes run: "py_while c body (x0, Np w0, xs0, ys0) = Some r"
    and nr: "\<And>x w xs ys e. body (x, Np w, xs, ys) \<noteq> Raise e"
    and keep: "\<And>x w xs ys x' y' xs' ys'.
        body (x, Np w, xs, ys) = Continue (x', y', xs', ys') \<Longrightarrow> \<exists>w'. y' = Np w'"
  shows "\<exists>t. r = Inr t"
proof (rule py_while_result[where I = "\<lambda>(x, y, xs, ys). \<exists>w. y = Np w"
      and P = "\<lambda>r. \<exists>t. r = Inr t", OF run])
  show "case s' of (x, y, xs, ys) \<Rightarrow> \<exists>w. y = Np w"
    if "case s of (x, y, xs, ys) \<Rightarrow> \<exists>w. y = Np w" "body s = Continue s'" for s s'
    using that keep by (cases s; cases s') auto
  show "\<exists>t. Inl e = Inr t"
    if "case s of (x, y, xs, ys) \<Rightarrow> \<exists>w. y = Np w" "body s = Raise e" for s e
    using that nr by (cases s) auto
qed auto

lemma compute_gvf_backwater_no_raise:
  "compute_gvf_backwater Q b n S0 (Np w) y_stop dx \<noteq> Some (Inl e)"
proof
  assume a: "compute_gvf_backwater Q b n S0 (Np w) y_stop dx = Some (Inl e)"
  then obtain r where r: "py_while (\<lambda>(x, y, x_vals, y_vals). gt y y_stop \<and> gt x (lit (- 1000)))
      (gvf_backwater_body Q b n S0 dx) (lit 0, Np w, [lit 0], [Np w]) = Some r"
    by (auto simp: compute_gvf_backwater_def)
  have "\<exists>t. r = Inr t"
  proof (rule py_while_np_no_raise[OF r])
    show "gvf_backwater_body Q b n S0 dx (x, Np w, xs, ys) \<noteq> Raise e" for x w xs ys e
      by (rule gvf_backwater_body_np(1))
    show "\<exists>w'. y' = Np w'"
      if "gvf_backwater_body Q b n S0 dx (x, Np w, xs, ys) = Continue (x', y', xs', ys')"
      for x w xs ys x' y' xs' ys'
      using that by (rule gvf_backwater_body_np(2))
  qed
  then obtain t where "r = Inr t" by blast
  with a r show False by (auto simp: compute_gvf_backwater_def)
qed

lemma gvf_backwater_first_step:
  "\<exists>v'. gvf_backwater_body (lit 10) (lit 3) (lit 0.03) (lit 0.001) (lit 1)
      (lit 0, Np (Fin 2), [lit 0], [Np (Fin 2)]) =
    Continue (lit (- 1), Np (Fin v'), [lit 0, lit (- 1)], [Np (Fin 2), Np (Fin v')])"
proof -
  define SF :: real where "SF = 0.03\<^sup>2 * 10\<^sup>2 / ((3 * 2)\<^sup>2 * 2 powr (4/3))"
  define F :: real where "F = 10\<^sup>2 / (9.81 * 3\<^sup>2 * 2 ^ 3)"
  define v' where "v' = 2 - (0.001 - SF) / (1 - F) * 1"
  have SF0: "0 \<le> SF" by (simp add: SF_def)
  have Fv: "F = 1250 / 8829" by (simp add: F_def)
  have "(0.001 - SF) / (1 - F) \<le> 0.001 / (1 - F)"
    using SF0 unfolding Fv by (simp add: divide_right_mono)
  also have "\<dots> < 2" unfolding Fv by simp
  finally have v'pos: "\<not> v' \<le> 0" by (simp add: v'_def)
  have sing: "\<not> \<bar>1 - F\<bar> < 0.000001" unfolding Fv by simp
  have x1: "sub (lit 0) (lit 1) = lit (- 1)" by (simp add: sub_lit add_lit)
  from gvf_backwater_body_fin[of "Np (Fin 2)" 2 3 F 10 SF "0.03" v' "0.001" 1
      "lit 0" "[lit 0]" "[Np (Fin 2)]"] sing v'pos
  have "gvf_backwater_body (lit 10) (lit 3) (lit 0.03) (lit 0.001) (lit 1)
      (lit 0, Np (Fin 2), [lit 0], [Np (Fin 2)]) =
    Continue (lit (- 1), Np (Fin v'), [lit 0, lit (- 1)], [Np (Fin 2), Np (Fin v')])"
    by (simp add: F_def SF_def v'_def x1)
  then show ?thesis by blast
qed

lemma grid_1: "grid e (Suc 0) = [lit 0, lit e]"
  by (simp add: grid_def)


lemma plot_profile_fin_no_raise:
  assumes run: "py_while c (plot_profile_body (lit q) (lit bb) (lit nn) (lit s0) (lit d))
      (x0, y0, xs0, ys0) = Some r"
    and y0: "val y0 = Fin v0" "0 < v0" and bb: "bb \<noteq> 0"
  shows "\<exists>t. r = Inr t"
proof (rule py_while_result[where
      I = "\<lambda>(x, y, xs, ys). (\<exists>w. y = Np w) \<or> (\<exists>v. 0 < v \<and> val y = Fin v)"
      and P = "\<lambda>r. \<exists>t. r = Inr t", OF run])
  show "case (x0, y0, xs0, ys0) of
          (x, y, xs, ys) \<Rightarrow> (\<exists>w. y = Np w) \<or> (\<exists>v. 0 < v \<and> val y = Fin v)"
    using y0 by simp
next
  fix s s' :: march
  assume st: "plot_profile_body (lit q) (lit bb) (lit nn) (lit s0) (lit d) s = Continue s'"
  obtain x y xs ys where s: "s = (x, y, xs, ys)" by (cases s)
  obtain x' y' xs' ys' where s': "s' = (x', y', xs', ys')" by (cases s')
  from plot_profile_body_keeps_np[of "lit q" "lit bb" "lit nn" "lit s0" "lit d" x y xs ys x' y' xs' ys']
    st s s'
  show "case s' of (x, y, xs, ys) \<Rightarrow> (\<exists>w. y = Np w) \<or> (\<exists>v. 0 < v \<and> val y = Fin v)"
    by simp
next
  fix s :: march and e
  assume I: "case s of (x, y, xs, ys) \<Rightarrow> (\<exists>w. y = Np w) \<or> (\<exists>v. 0 < v \<and> val y = Fin v)"
    and st: "plot_profile_body (lit q) (lit bb) (lit nn) (lit s0) (lit d) s = Raise e"
  obtain x y xs ys where s: "s = (x, y, xs, ys)" by (cases s)
  from I s consider w where "y = Np w" | v where "0 < v" "val y = Fin v" by auto
  then show "\<exists>t. Inl e = Inr t"
  proof cases
    case 1
    with st s plot_profile_body_no_raise_np show ?thesis by blast
  next
    case 2
    from plot_profile_body_fin[OF 2(2) 2(1) bb refl refl refl, where q = q and nn = nn
        and ?s0.0 = s0 and d = d and x = x and xs = xs and ys = ys] st s
    show ?thesis by (auto split: if_splits)
  qed
qed auto



lemma mul_lit: "mul (lit a) (lit b) = lit (a * b)"
  by (simp add: mul_def lit_def kind_of_def)

lemma val_lit: "val (lit a) = Fin a"
  by (simp add: lit_def)






lemma march4_extends:
  fixes body :: "march \<Rightarrow> march flow"
  assumes run: "py_while c body (x0, y0, xs0, ys0) = Some (Inr (x, y, xs, ys))"
    and cont: "\<And>x y xs ys s'. body (x, y, xs, ys) = Continue s' \<Longrightarrow>
        \<exists>x' y'. s' = (x', y', xs @ [x'], ys @ [y'])"
    and brk: "\<And>x y xs ys s'. body (x, y, xs, ys) = Break s' \<Longrightarrow> \<exists>x' y'. s' = (x', y', xs, ys)"
  shows "\<exists>rest. ys = ys0 @ rest"
proof -
  define I :: "march \<Rightarrow> bool" where "I = (\<lambda>(x, y, xs, ys). \<exists>rest. ys = ys0 @ rest)"
  define P :: "pyerr + march \<Rightarrow> bool" where "P = (\<lambda>r. case r of Inl e \<Rightarrow> True | Inr t \<Rightarrow> I t)"
  have "P (Inr (x, y, xs, ys))"
  proof (rule py_while_result[where I = I and P = P, OF run])
    show "I (x0, y0, xs0, ys0)" by (simp add: I_def)
    show "I s'" if "I s" "body s = Continue s'" for s s'
      using that cont[of "fst s" "fst (snd s)" "fst (snd (snd s))" "snd (snd (snd s))" s']
      by (cases s) (auto simp: I_def)
    show "P (Inr s')" if "I s" "body s = Break s'" for s s'
      using that brk[of "fst s" "fst (snd s)" "fst (snd (snd s))" "snd (snd (snd s))" s']
      by (cases s) (auto simp: I_def P_def)
    show "P (Inl e)" for e by (simp add: P_def)
    show "P (Inr s)" if "I s" for s using that by (simp add: P_def)
  qed
  then show ?thesis by (simp add: P_def I_def)
qed

lemma plot_profile_first_step_7:
  "\<exists>v v'. 0 < v \<and> v' \<le> 0 \<and>
     compute_critical_depth (lit 7) (lit 3) = Inr (lit (v / 1.05)) \<and>
     plot_profile_body (lit 7) (lit 3) (lit 0.3) (lit 0.001) (lit 0.25)
       (lit 0, lit v, [lit 0], [lit v]) =
     Continue (lit 0.25, Np (Fin v'), [lit 0, lit 0.25], [lit v, Np (Fin v')])"
proof -
  define c :: real where "c = (7\<^sup>2 / (9.81 * 3\<^sup>2)) powr (1/3)"
  define v where "v = c * 1.05"
  define SF :: real where "SF = 0.3\<^sup>2 * 7\<^sup>2 / ((3 * v)\<^sup>2 * v powr (4/3))"
  define v' where "v' = v + (0.001 - SF) / (1 - 8000 / 9261) * 0.25"
  have yc: "compute_critical_depth (lit 7) (lit 3) = Inr (lit c)"
    unfolding c_def by (rule critical_depth_lit) simp
  have F: "7\<^sup>2 / (9.81 * 3\<^sup>2 * v ^ 3) = 8000 / 9261" and cpos: "0 < c"
    unfolding v_def using start_froude[of 7 3 "1.05" c] c_def
    by (simp_all add: power3_eq_cube)
  have chi: "c < 0.83"
    unfolding c_def by (rule powr_third_less) (simp_all add: power3_eq_cube)
  have vpos: "0 < v" and vhi: "v < 0.8715" using cpos chi by (simp_all add: v_def)
  have "v\<^sup>2 < 0.8715\<^sup>2" using vpos vhi by (intro power_strict_mono) simp_all
  then have v2: "(3 * v)\<^sup>2 \<le> 6.84" by (simp add: power_mult_distrib power2_eq_square)
  have vp: "v powr (4/3) \<le> 1" using vpos vhi by (intro powr_le1) simp_all
  have den: "(3 * v)\<^sup>2 * v powr (4/3) \<le> 6.84 * 1"
    by (rule mult_mono[OF v2 vp]) simp_all
  have denpos: "0 < (3 * v)\<^sup>2 * v powr (4/3)" using vpos by simp
  have "4.41 / 6.84 \<le> 4.41 / ((3 * v)\<^sup>2 * v powr (4/3))"
    using den denpos by (intro divide_left_mono) simp_all
  then have SFlo: "0.64 \<le> SF" by (simp add: SF_def power2_eq_square)
  have v'neg: "v' \<le> 0" using SFlo vhi by (simp add: v'_def field_simps)
  have step: "plot_profile_body (lit 7) (lit 3) (lit 0.3) (lit 0.001) (lit 0.25)
      (lit 0, lit v, [lit 0], [lit v]) =
      Continue (lit 0.25, Np (Fin v'), [lit 0, lit 0.25], [lit v, Np (Fin v')])"
    using plot_profile_body_fin[of "lit v" v 3 "8000 / 9261" 7 SF "0.3" "Np (Fin v')" "0.001" "0.25"
        "lit 0" "[lit 0]" "[lit v]"] vpos F
    by (simp add: lit_def SF_def v'_def add_def kind_of_def)
  from vpos v'neg yc step show ?thesis by (intro exI[of _ v] exI[of _ v']) (simp add: v_def)
qed


lemma march4_checked:
  fixes body :: "march \<Rightarrow> march flow"
  assumes run: "py_while c body (x0, y0, xs0, [y0]) = Some (Inr (x, y, xs, ys))"
    and cont: "\<And>x y xs ys s'. body (x, y, xs, ys) = Continue s' \<Longrightarrow>
        \<exists>x' y'. s' = (x', y', xs @ [x'], ys @ [y']) \<and> \<not> le y' (lit 0) \<and> \<not> np_isnan y'"
    and brk: "\<And>x y xs ys s'. body (x, y, xs, ys) = Break s' \<Longrightarrow> \<exists>x' y'. s' = (x', y', xs, ys)"
  shows "\<exists>rest. ys = y0 # rest \<and> (\<forall>y\<in>set rest. \<not> le y (lit 0) \<and> \<not> np_isnan y)"
proof -
  define I :: "march \<Rightarrow> bool" where "I = (\<lambda>(x, y, xs, ys).
      \<exists>rest. ys = y0 # rest \<and> (\<forall>y\<in>set rest. \<not> le y (lit 0) \<and> \<not> np_isnan y))"
  define P :: "pyerr + march \<Rightarrow> bool" where "P = (\<lambda>r. case r of Inl e \<Rightarrow> True | Inr t \<Rightarrow> I t)"
  have "P (Inr (x, y, xs, ys))"
  proof (rule py_while_result[where I = I and P = P, OF run])
    show "I (x0, y0, xs0, [y0])" by (simp add: I_def)
    show "I s'" if "I s" "body s = Continue s'" for s s'
      using that cont[of "fst s" "fst (snd s)" "fst (snd (snd s))" "snd (snd (snd s))" s']
      by (cases s) (auto simp: I_def)
    show "P (Inr s')" if "I s" "body s = Break s'" for s s'
      using that brk[of "fst s" "fst (snd s)" "fst (snd (snd s))" "snd (snd (snd s))" s']
      by (cases s) (auto simp: I_def P_def)
    show "P (Inl e)" for e by (simp add: P_def)
    show "P (Inr s)" if "I s" for s using that by (simp add: P_def)
  qed
  then show ?thesis by (simp add: P_def I_def)
qed

lemma compute_gvf_profile_depths_checked:
  assumes "compute_gvf_profile slv Q b z n S0 dx L = Some (Inr (xs, ys, yc, path))"
  shows "\<exists>rest. ys = mul yc (lit 1.01) # rest \<and>
           (\<forall>y\<in>set rest. \<not> le y (lit 0) \<and> \<not> np_isnan y)"
proof -
  from assms obtain yc' where yc': "compute_critical_depth_trapezoidal slv Q b z = Inr yc'"
    by (cases "compute_critical_depth_trapezoidal slv Q b z") (auto simp: compute_gvf_profile_def)
  obtain r where r: "py_while (\<lambda>(x, y, x_vals, y_vals). lt x L) (gvf_profile_body Q b z n S0 dx)
      (lit 0, mul yc' (lit 1.01), [lit 0], [mul yc' (lit 1.01)]) = Some r"
    using assms yc' by (auto simp: compute_gvf_profile_def Let_def)
  obtain t where t: "r = Inr t"
    using assms yc' r by (cases r) (auto simp: compute_gvf_profile_def Let_def)
  obtain x y where run: "py_while (\<lambda>(x, y, x_vals, y_vals). lt x L) (gvf_profile_body Q b z n S0 dx)
      (lit 0, mul yc (lit 1.01), [lit 0], [mul yc (lit 1.01)]) = Some (Inr (x, y, xs, ys))"
    using assms yc' r t by (cases t) (auto simp: compute_gvf_profile_def Let_def)
  show ?thesis
  proof (rule march4_checked[OF run])
    show "\<exists>x' y'. s' = (x', y', xs @ [x'], ys @ [y']) \<and> \<not> le y' (lit 0) \<and> \<not> np_isnan y'"
      if "gvf_profile_body Q b z n S0 dx (x, y, xs, ys) = Continue s'" for x y xs ys s'
      using gvf_profile_body_Continue[OF that] by blast
    show "\<exists>x' y'. s' = (x', y', xs, ys)"
      if "gvf_profile_body Q b z n S0 dx (x, y, xs, ys) = Break s'" for x y xs ys s'
      using gvf_profile_body_Break[OF that] .
  qed
qed

lemma compute_gvf_backwater_depths_checked:
  assumes "compute_gvf_backwater Q b n S0 y_end y_stop dx = Some (Inr (xs, ys))"
  shows "\<exists>rest. rev ys = y_end # rest \<and> (\<forall>y\<in>set rest. \<not> le y (lit 0) \<and> \<not> np_isnan y)"
proof -
  obtain r where r: "py_while (\<lambda>(x, y, x_vals, y_vals). gt y y_stop \<and> gt x (lit (- 1000)))
      (gvf_backwater_body Q b n S0 dx) (lit 0, y_end, [lit 0], [y_end]) = Some r"
    using assms by (auto simp: compute_gvf_backwater_def)
  obtain t where t: "r = Inr t"
    using assms r by (cases r) (auto simp: compute_gvf_backwater_def)
  obtain x y xs' ys' where ys: "ys = rev ys'"
    and run: "py_while (\<lambda>(x, y, x_vals, y_vals). gt y y_stop \<and> gt x (lit (- 1000)))
      (gvf_backwater_body Q b n S0 dx) (lit 0, y_end, [lit 0], [y_end]) = Some (Inr (x, y, xs', ys'))"
    using assms r t by (cases t) (auto simp: compute_gvf_backwater_def)
  have "\<exists>rest. ys' = y_end # rest \<and> (\<forall>y\<in>set rest. \<not> le y (lit 0) \<and> \<not> np_isnan y)"
  proof (rule march4_checked[OF run])
    show "\<exists>x' y'. s' = (x', y', xs @ [x'], ys @ [y']) \<and> \<not> le y' (lit 0) \<and> \<not> np_isnan y'"
      if "gvf_backwater_body Q b n S0 dx (x, y, xs, ys) = Continue s'" for x y xs ys s'
      using gvf_backwater_body_Continue[OF that] by blast
    show "\<exists>x' y'. s' = (x', y', xs, ys)"
      if "gvf_backwater_body Q b n S0 dx (x, y, xs, ys) = Break s'" for x y xs ys s'
      using gvf_backwater_body_Break[OF that] .
  qed
  then show ?thesis by (simp add: ys)
qed

lemma compute_backwater_from_weir_depths_checked:
  assumes "compute_backwater_from_weir Q b n S0 dx L = Some (Inr (xs, ys, yc, frs))"
  shows "\<exists>rest. ys = mul yc (lit 1.01) # rest \<and>
           (\<forall>y\<in>set rest. \<not> le y (lit 0) \<and> \<not> np_isnan y)"
proof -
  define y0 where "y0 = mul yc (lit 1.01)"
  define I :: "march_fr \<Rightarrow> bool" where "I = (\<lambda>(x, y, xs, ys, frs).
      \<exists>rest. ys = y0 # rest \<and> (\<forall>y\<in>set rest. \<not> le y (lit 0) \<and> \<not> np_isnan y))"
  define P :: "pyerr + march_fr \<Rightarrow> bool"
    where "P = (\<lambda>r. case r of Inl e \<Rightarrow> True | Inr t \<Rightarrow> I t)"
  from assms obtain yc' where yc': "compute_critical_depth Q b = Inr yc'"
    by (cases "compute_critical_depth Q b") (auto simp: compute_backwater_from_weir_def)
  obtain r where r: "py_while (\<lambda>(x, y, x_vals, y_vals, fr_vals). lt x L)
      (backwater_from_weir_body Q b n S0 dx)
      (lit 0, mul yc' (lit 1.01), [lit 0], [mul yc' (lit 1.01)], []) = Some r"
    using assms yc' by (auto simp: compute_backwater_from_weir_def Let_def)
  obtain t where t: "r = Inr t"
    using assms yc' r by (cases r) (auto simp: compute_backwater_from_weir_def Let_def)
  obtain x y where run: "py_while (\<lambda>(x, y, x_vals, y_vals, fr_vals). lt x L)
      (backwater_from_weir_body Q b n S0 dx) (lit 0, y0, [lit 0], [y0], [])
      = Some (Inr (x, y, xs, ys, frs))"
    using assms yc' r t by (cases t) (auto simp: compute_backwater_from_weir_def Let_def y0_def)
  have "P (Inr (x, y, xs, ys, frs))"
  proof (rule py_while_result[where I = I and P = P, OF run])
    show "I (lit 0, y0, [lit 0], [y0], [])" by (simp add: I_def)
    show "I s'" if "I s" "backwater_from_weir_body Q b n S0 dx s = Continue s'" for s s'
      using that backwater_from_weir_body_Continue[of Q b n S0 dx "fst s" "fst (snd s)"
          "fst (snd (snd s))" "fst (snd (snd (snd s)))" "snd (snd (snd (snd s)))" s']
      by (cases s) (auto simp: I_def)
    show "P (Inr s')" if "I s" "backwater_from_weir_body Q b n S0 dx s = Break s'" for s s'
      using that backwater_from_weir_body_Break[of Q b n S0 dx "fst s" "fst (snd s)"
          "fst (snd (snd s))" "fst (snd (snd (snd s)))" "snd (snd (snd (snd s)))" s']
      by (cases s) (auto simp: I_def P_def)
    show "P (Inl e)" for e by (simp add: P_def)
    show "P (Inr s)" if "I s" for s using that by (simp add: P_def)
  qed
  then show ?thesis by (simp add: P_def I_def y0_def)
qed

lemma backwater_from_weir_first_break:
  assumes yc: "compute_critical_depth Q b = Inr yc"
    and brk: "backwater_from_weir_body Q b n S0 dx
        (lit 0, mul yc (lit 1.01), [lit 0], [mul yc (lit 1.01)], []) = Break s'"
  shows "compute_backwater_from_weir Q b n S0 dx L =
           Some (Inr ([lit 0], [mul yc (lit 1.01)], yc, []))"
proof -
  from backwater_from_weir_body_Break[OF brk] obtain x' y'
    where s': "s' = (x', y', [lit 0], [mul yc (lit 1.01)], [])" by blast
  show ?thesis
  proof (cases "lt (lit 0) L")
    case True
    have "py_while (\<lambda>(x, y, x_vals, y_vals, fr_vals). lt x L)
        (backwater_from_weir_body Q b n S0 dx)
        (lit 0, mul yc (lit 1.01), [lit 0], [mul yc (lit 1.01)], []) = Some (Inr s')"
      using brk True by (subst py_while.simps) simp
    then show ?thesis by (simp add: compute_backwater_from_weir_def yc Let_def s')
  next
    case False
    have "py_while (\<lambda>(x, y, x_vals, y_vals, fr_vals). lt x L)
        (backwater_from_weir_body Q b n S0 dx)
        (lit 0, mul yc (lit 1.01), [lit 0], [mul yc (lit 1.01)], []) =
        Some (Inr (lit 0, mul yc (lit 1.01), [lit 0], [mul yc (lit 1.01)], []))"
      using False by (subst py_while.simps) simp
    then show ?thesis by (simp add: compute_backwater_from_weir_def yc Let_def)
  qed
qed

lemma gvf_profile_first_break:
  assumes yc: "compute_critical_depth_trapezoidal slv Q b z = Inr yc"
    and brk: "gvf_profile_body Q b z n S0 dx
        (lit 0, mul yc (lit 1.01), [lit 0], [mul yc (lit 1.01)]) = Break s'"
  shows "compute_gvf_profile slv Q b z n S0 dx L =
           Some (Inr ([lit 0], [mul yc (lit 1.01)], yc, ''outputs/gvf_profile.csv''))"
proof -
  from gvf_profile_body_Break[OF brk] obtain x' y'
    where s': "s' = (x', y', [lit 0], [mul yc (lit 1.01)])" by blast
  show ?thesis
  proof (cases "lt (lit 0) L")
    case True
    have "py_while (\<lambda>(x, y, x_vals, y_vals). lt x L) (gvf_profile_body Q b z n S0 dx)
        (lit 0, mul yc (lit 1.01), [lit 0], [mul yc (lit 1.01)]) = Some (Inr s')"
      using brk True by (subst py_while.simps) simp
    then show ?thesis by (simp add: compute_gvf_profile_def yc Let_def s')
  next
    case False
    have "py_while (\<lambda>(x, y, x_vals, y_vals). lt x L) (gvf_profile_body Q b z n S0 dx)
        (lit 0, mul yc (lit 1.01), [lit 0], [mul yc (lit 1.01)]) =
        Some (Inr (lit 0, mul yc (lit 1.01), [lit 0], [mul yc (lit 1.01)]))"
      using False by (subst py_while.simps) simp
    then show ?thesis by (simp add: compute_gvf_profile_def yc Let_def)
  qed
qed

lemma backwater_from_weir_first_step_7:
  "\<exists>x' y'. le y' (lit 0) \<and>
     backwater_from_weir_body (lit 7) (lit 3) (lit 0.3) (lit 0.001) (lit 0.25)
       (lit 0, mul (lit ((7\<^sup>2 / (9.81 * 3\<^sup>2)) powr (1/3))) (lit 1.01), [lit 0],
        [mul (lit ((7\<^sup>2 / (9.81 * 3\<^sup>2)) powr (1/3))) (lit 1.01)], []) =
     Break (x', y', [lit 0], [mul (lit ((7\<^sup>2 / (9.81 * 3\<^sup>2)) powr (1/3))) (lit 1.01)], [])"
proof -
  define c :: real where "c = (7\<^sup>2 / (9.81 * 3\<^sup>2)) powr (1/3)"
  define v where "v = c * 1.01"
  define SF :: real where "SF = 0.3\<^sup>2 * 7\<^sup>2 / ((3 * v)\<^sup>2 * v powr (4/3))"
  define F :: real where "F = 1000000 / 1030301"
  define v' where "v' = v + (0.001 - SF) / (if \<bar>1 - F\<bar> < 0.000001 then 0.000001 else 1 - F) * 0.25"
  have F: "F = 7\<^sup>2 / (9.81 * 3\<^sup>2 * v ^ 3)" and cpos: "0 < c"
    unfolding v_def F_def using start_froude[of 7 3 "1.01" c] c_def
    by (simp_all add: power3_eq_cube)
  have chi: "c < 0.83"
    unfolding c_def by (rule powr_third_less) (simp_all add: power3_eq_cube)
  have vpos: "0 < v" and vhi: "v < 0.8383" using cpos chi by (simp_all add: v_def)
  have "v\<^sup>2 < 0.8383\<^sup>2" using vpos vhi by (intro power_strict_mono) simp_all
  then have v2: "(3 * v)\<^sup>2 \<le> 6.33" by (simp add: power_mult_distrib power2_eq_square)
  have vp: "v powr (4/3) \<le> 1" using vpos vhi by (intro powr_le1) simp_all
  define D where "D = (3 * v)\<^sup>2 * v powr (4/3)"
  have den: "D \<le> 6.33 * 1"
    unfolding D_def by (rule mult_mono[OF v2 vp]) simp_all
  have denpos: "0 < D" using vpos by (simp add: D_def)
  have SF_eq: "SF = 4.41 / D" by (simp add: SF_def D_def power2_eq_square)
  have "4.41 / 6.33 \<le> 4.41 / D"
    using den denpos by (intro divide_left_mono) simp_all
  moreover have "(0.69::real) \<le> 4.41 / 6.33" by simp
  ultimately have SFlo: "0.69 \<le> SF" unfolding SF_eq by (rule order_trans[rotated])
  have v'neg: "v' \<le> 0" using SFlo vhi by (simp add: v'_def F_def field_simps)
  have y0: "mul (lit c) (lit 1.01) = lit v" by (simp add: mul_lit v_def)
  from backwater_from_weir_body_fin[OF val_lit vpos _ F SF_def v'_def, where
      x = "lit 0" and xs = "[lit 0]" and ys = "[lit v]" and frs = "[]"] v'neg
  obtain y' where "val y' = Fin v'"
    "backwater_from_weir_body (lit 7) (lit 3) (lit 0.3) (lit 0.001) (lit 0.25)
       (lit 0, lit v, [lit 0], [lit v], []) = Break (add (lit 0) (lit 0.25), y', [lit 0], [lit v], [])"
    by auto
  with v'neg show ?thesis
    unfolding c_def[symmetric] y0 by (intro exI[of _ "add (lit 0) (lit 0.25)"] exI[of _ y'])
      (simp add: le_def lit_def)
qed

lemma froude_sq_trapezoidal:
  fixes q A T :: real
  assumes "0 < A" "0 < T"
  shows "(q / (A * sqrt (9.81 * A / T)))\<^sup>2 = q\<^sup>2 * T / (9.81 * A ^ 3)"
proof -
  define r where "r = sqrt (9.81 * A / T)"
  have r2: "r\<^sup>2 = 9.81 * A / T" using assms by (simp add: r_def)
  have "(q / (A * r))\<^sup>2 = q\<^sup>2 / (A\<^sup>2 * r\<^sup>2)"
    by (simp add: power_divide power_mult_distrib)
  also have "\<dots> = q\<^sup>2 * T / (9.81 * A ^ 3)"
    unfolding r2 using assms by (simp add: power3_eq_cube power2_eq_square)
  finally show ?thesis by (simp add: r_def)
qed

lemma gvf_profile_body_fin:
  assumes v: "0 < v" and b: "0 < bb" and z: "0 \<le> zz"
    and A: "A = bb * v + zz * v\<^sup>2" and T: "T = bb + 2 * zz * v"
    and P: "P = bb + 2 * v * (1 + zz\<^sup>2) powr 0.5"
    and F: "F = q\<^sup>2 * T / (9.81 * A ^ 3)"
    and SF: "SF = nn\<^sup>2 * q\<^sup>2 / (A\<^sup>2 * (A / P) powr (4/3))"
    and v': "v' = v + (s0 - SF) / (1 - F) * d"
  shows "gvf_profile_body (lit q) (lit bb) (lit zz) (lit nn) (lit s0) (lit d) (x, Np (Fin v), xs, ys) =
     (if \<bar>1 - F\<bar> < 0.000001 then Break (x, Np (Fin v), xs, ys)
      else if v' \<le> 0 then Break (add x (lit d), Np (Fin v'), xs, ys)
      else Continue (add x (lit d), Np (Fin v'), xs @ [add x (lit d)], ys @ [Np (Fin v')]))"
proof -
  have Apos: "0 < A" unfolding A using v b z by (simp add: add_pos_nonneg)
  have Tpos: "0 < T" unfolding T using v b z by (simp add: add_pos_nonneg)
  have Ppos: "0 < P" unfolding P using v b by (simp add: add_pos_nonneg)
  define f where "f = q / (A * sqrt (9.81 * A / T))"
  have ar: "area (lit bb) (lit zz) (Np (Fin v)) = Np (Fin A)"
    by (simp add: area_def lit_def A)
  have tw: "top_width (lit bb) (lit zz) (Np (Fin v)) = Np (Fin T)"
    by (simp add: top_width_def lit_def T num_defs)
  have "\<not> 1 + zz\<^sup>2 < 0" by (simp add: not_less add_nonneg_nonneg)
  then have pe: "perimeter (lit bb) (lit zz) (Np (Fin v)) = Np (Fin P)"
    by (simp add: perimeter_def lit_def P num_defs)
  have rpos: "\<not> 9.81 * A / T < 0" "sqrt (9.81 * A / T) \<noteq> 0"
    using Apos Tpos by (simp_all add: not_less)
  have fr: "Fr_trapezoidal (lit q) (lit bb) (lit zz) (Np (Fin v)) = Inr (Np (Fin f))"
    unfolding Fr_trapezoidal_def ar tw Let_def f_def
    using Apos Tpos rpos by (simp add: bind_err_def g_def lit_def np_sqrt_def)
  have den: "sub (lit 1) (pow_int (Np (Fin f)) 2) = Np (Fin (1 - F))"
    unfolding denom_np F f_def using froude_sq_trapezoidal[OF Apos Tpos, of q]
    by (simp add: fl_sub_def)
  have hr: "hydraulic_radius (lit bb) (lit zz) (Np (Fin v)) = Inr (Np (Fin (A / P)))"
    unfolding hydraulic_radius_def ar pe Let_def using Ppos by simp
  have rp: "\<not> A / P < 0" "A / P \<noteq> 0" using Apos Ppos by (simp_all add: not_less)
  have sf: "Sf_trapezoidal (lit q) (lit bb) (lit zz) (Np (Fin v)) (lit nn) = Inr (Np (Fin SF))"
    unfolding Sf_trapezoidal_def ar hr Let_def SF
    using Apos Ppos rp by (simp add: bind_err_def lit_def pow_int_def kind_of_def mul_def)
  have sing: "lt (pabs (Np (Fin (1 - F)))) (lit 0.000001) \<longleftrightarrow> \<bar>1 - F\<bar> < 0.000001"
    by (simp add: num_defs)
  have dv: "truediv (sub (lit s0) (Np (Fin SF))) (Np (Fin (1 - F))) =
      Inr (Np (Fin ((s0 - SF) / (1 - F))))" if "\<not> \<bar>1 - F\<bar> < 0.000001"
    using that by (auto simp: num_defs)
  have upd: "add (Np (Fin v)) (mul (Np (Fin ((s0 - SF) / (1 - F)))) (lit d)) = Np (Fin v')"
    unfolding v' by (simp add: num_defs)
  have chk: "le (Np (Fin v')) (lit 0) \<or> np_isnan (Np (Fin v')) \<longleftrightarrow> v' \<le> 0"
    by (simp add: num_defs)
  show ?thesis
  proof (cases "\<bar>1 - F\<bar> < 0.000001")
    case True
    with sing have "lt (pabs (Np (Fin (1 - F)))) (lit 0.000001)" by simp
    then show ?thesis
      unfolding gvf_profile_body_def prod.case fr sum.case Let_def den using True by simp
  next
    case False
    with sing have "\<not> lt (pabs (Np (Fin (1 - F)))) (lit 0.000001)" by simp
    then show ?thesis
      unfolding gvf_profile_body_def prod.case fr sum.case Let_def den sf
      using False dv[OF False] upd chk by simp
  qed
qed

lemma spec_signed_clamp_body_fin:
  assumes y: "val y = Fin v" "0 < v" and b: "bb \<noteq> 0"
    and F: "F = q\<^sup>2 / (9.81 * bb\<^sup>2 * v ^ 3)"
    and SF: "SF = nn\<^sup>2 * q\<^sup>2 / ((bb * v)\<^sup>2 * v powr (4/3))"
    and v': "v' = v + (s0 - SF) /
        (if \<bar>1 - F\<bar> < 0.000001 then (if 1 - F < 0 then - 0.000001 else 0.000001) else 1 - F) * d"
  shows "\<exists>y' fr. val y' = Fin v' \<and>
     spec_signed_clamp_body (lit q) (lit bb) (lit nn) (lit s0) (lit d) (x, y, xs, ys, frs) =
     (if v' \<le> 0 then Break (add x (lit d), y', xs, ys, frs)
      else Continue (add x (lit d), y', xs @ [add x (lit d)], ys @ [y'], frs @ [fr]))"
proof -
  define f where "f = q / (bb * v * sqrt (9.81 * v))"
  define e :: real where "e = (if 1 - F < 0 then - 0.000001 else 0.000001)"
  have fr: "Fr (lit q) (lit bb) y = Inr (Np (Fin f))"
    unfolding f_def by (rule Fr_fin[OF y b])
  have den: "sub (lit 1) (pow_int (Np (Fin f)) 2) = Np (Fin (1 - F))"
    unfolding denom_np F f_def using froude_sq[OF y(2) b, of q] by (simp add: fl_sub_def)
  have sf: "Sf y (lit q) (lit bb) (lit nn) = Inr (kind_of y y (Fin SF))"
    unfolding SF by (rule Sf_fin[OF y b])
  have sing: "lt (pabs (Np (Fin (1 - F)))) (lit 0.000001) \<longleftrightarrow> \<bar>1 - F\<bar> < 0.000001"
    by (simp add: num_defs)
  have sgn: "(if lt (Np (Fin (1 - F))) (lit 0) then lit (- 0.000001) else lit 0.000001) = lit e"
    by (simp add: num_defs e_def)
  have e0: "e \<noteq> 0" by (simp add: e_def)
  show ?thesis
  proof (cases "\<bar>1 - F\<bar> < 0.000001")
    case True
    define y' where "y' = kind_of y y (Fin v')"
    have s: "lt (pabs (Np (Fin (1 - F)))) (lit 0.000001)" using sing True by simp
    have dv: "truediv (sub (lit s0) (kind_of y y (Fin SF))) (lit e) =
        Inr (kind_of y y (Fin ((s0 - SF) / e)))"
      using e0 by (cases y) (simp_all add: num_defs)
    have upd: "add y (mul (kind_of y y (Fin ((s0 - SF) / e))) (lit d)) = y'"
      using y(1) True unfolding v' y'_def e_def by (cases y) (simp_all add: num_defs)
    have chk: "le y' (lit 0) \<or> np_isnan y' \<longleftrightarrow> v' \<le> 0"
      unfolding y'_def by (cases y) (simp_all add: num_defs)
    have "val y' = Fin v'" unfolding y'_def by (cases y) (simp_all add: num_defs)
    moreover have "spec_signed_clamp_body (lit q) (lit bb) (lit nn) (lit s0) (lit d)
        (x, y, xs, ys, frs) =
       (if v' \<le> 0 then Break (add x (lit d), y', xs, ys, frs)
        else Continue (add x (lit d), y', xs @ [add x (lit d)], ys @ [y'], frs @ [Np (Fin f)]))"
      unfolding spec_signed_clamp_body_def prod.case fr sum.case Let_def den sf sgn
      using s dv upd chk by simp
    ultimately show ?thesis by blast
  next
    case False
    define y' where "y' = Np (Fin v')"
    have s: "\<not> lt (pabs (Np (Fin (1 - F)))) (lit 0.000001)" using sing False by simp
    have dv: "truediv (sub (lit s0) (kind_of y y (Fin SF))) (Np (Fin (1 - F))) =
        Inr (Np (Fin ((s0 - SF) / (1 - F))))"
      using False by (cases y) (auto simp: num_defs)
    have upd: "add y (mul (Np (Fin ((s0 - SF) / (1 - F)))) (lit d)) = y'"
      using y(1) False unfolding v' y'_def by (cases y) (simp_all add: num_defs)
    have chk: "le y' (lit 0) \<or> np_isnan y' \<longleftrightarrow> v' \<le> 0"
      unfolding y'_def by (simp add: num_defs)
    have "val y' = Fin v'" unfolding y'_def by simp
    moreover have "spec_signed_clamp_body (lit q) (lit bb) (lit nn) (lit s0) (lit d)
        (x, y, xs, ys, frs) =
       (if v' \<le> 0 then Break (add x (lit d), y', xs, ys, frs)
        else Continue (add x (lit d), y', xs @ [add x (lit d)], ys @ [y'], frs @ [Np (Fin f)]))"
      unfolding spec_signed_clamp_body_def prod.case fr sum.case Let_def den sf sgn
      using s dv upd chk by simp
    ultimately show ?thesis by blast
  qed
qed

lemma near_critical_state:
  fixes v F SF :: real
  assumes v: "v = 1.042388" and F: "F = 10\<^sup>2 / (9.81 * 3\<^sup>2 * v ^ 3)"
    and SF: "SF = 0.03\<^sup>2 * 10\<^sup>2 / ((3 * v)\<^sup>2 * v powr (4/3))"
  shows "1 - F < 0" "\<bar>1 - F\<bar> < 0.000001" "0.008 \<le> SF"
proof -
  have Fv: "F = 100 / (88.29 * 1.042388 ^ 3)" unfolding F v by simp
  show "1 - F < 0" unfolding Fv by (simp add: power3_eq_cube)
  show "\<bar>1 - F\<bar> < 0.000001" unfolding Fv by (simp add: power3_eq_cube)
  have v1: "1 \<le> v" "0 < v" unfolding v by simp_all
  have "v powr (4/3) \<le> v powr 2" using v1 by (intro powr_mono) simp_all
  also have "\<dots> = v\<^sup>2" using v1 by simp
  finally have vp: "v powr (4/3) \<le> v\<^sup>2" .
  define D where "D = (3 * v)\<^sup>2 * v powr (4/3)"
  have "D \<le> (3 * v)\<^sup>2 * v\<^sup>2" unfolding D_def by (intro mult_left_mono vp) simp
  also have "\<dots> \<le> 11" unfolding v by (simp add: power2_eq_square)
  finally have den: "D \<le> 11" .
  have denpos: "0 < D" using v1 by (simp add: D_def)
  have SF_eq: "SF = 0.09 / D" by (simp add: SF D_def power2_eq_square)
  have "0.09 / 11 \<le> 0.09 / D"
    using den denpos by (intro divide_left_mono) simp_all
  moreover have "(0.008::real) \<le> 0.09 / 11" by simp
  ultimately show "0.008 \<le> SF" unfolding SF_eq by (rule order_trans[rotated])
qed

lemma critical_depth_func_rect:
  "critical_depth_func (lit q) (lit bb) (lit 0) (Np (Fin y)) =
     Inr (Np (Fin (q\<^sup>2 * bb - 9.81 * (bb * y) ^ 3)))"
  by (simp add: critical_depth_func_def area_def top_width_def Let_def num_defs)

lemma root_iff_closed_form:
  fixes g q bb y :: real
  assumes "0 < g" "0 < bb" "0 < y"
  shows "q\<^sup>2 * bb - g * (bb * y) ^ 3 = 0 \<longleftrightarrow> y = (q\<^sup>2 / (g * bb\<^sup>2)) powr (1/3)"
proof -
  define a where "a = q\<^sup>2 / (g * bb\<^sup>2)"
  have a0: "0 \<le> a" using assms(1) by (simp add: a_def)
  have eq: "q\<^sup>2 * bb - g * (bb * y) ^ 3 = g * bb ^ 3 * (a - y ^ 3)"
    using assms(1,2) by (simp add: a_def power3_eq_cube power2_eq_square field_simps)
  have "q\<^sup>2 * bb - g * (bb * y) ^ 3 = 0 \<longleftrightarrow> a = y ^ 3"
    unfolding eq using assms(1,2) by simp
  also have "\<dots> \<longleftrightarrow> y = a powr (1/3)"
  proof
    assume "a = y ^ 3"
    then show "y = a powr (1/3)" using assms(3) by (simp add: powr_third_cube)
  next
    assume "y = a powr (1/3)"
    then show "a = y ^ 3" using a0 by (simp add: cube_powr_third)
  qed
  finally show ?thesis unfolding a_def .
qed

lemma rect_root_iff:
  fixes q bb y :: real
  assumes "0 < bb" "0 < y"
  shows "q\<^sup>2 * bb - 9.81 * (bb * y) ^ 3 = 0 \<longleftrightarrow> y = (q\<^sup>2 / (9.81 * bb\<^sup>2)) powr (1/3)"
  by (rule root_iff_closed_form[OF _ assms]) simp

lemma manning_eq_guard: "le y (lit 0) \<Longrightarrow> manning_eq Q b n S0 y = Inr (lit 1000000)"
  by (simp add: manning_eq_def)

lemma manning_eq_positive:
  assumes "0 < v" "nn \<noteq> 0" "0 \<le> s0"
  shows "manning_eq (lit q) (lit bb) (lit nn) (lit s0) (Np (Fin v)) =
           Inr (Np (Fin (1 / nn * (bb * v) * v powr (2/3) * sqrt s0 - q)))"
  using assms by (simp add: manning_eq_def Let_def bind_err_def num_defs)

section \<open>Rounding of the running distance\<close>

text \<open>
  Without rounding the running distance is \<open>k dx\<close>, the distances of the loops above.
\<close>

lemma running_sum_exact: "running_sum (\<lambda>r. r) d k = real k * d"
  by (induction k) (simp_all add: algebra_simps)

lemma grid_running_sum: "grid d k = map (\<lambda>i. lit (running_sum (\<lambda>r. r) d i)) [0..<Suc k]"
  unfolding grid_def running_sum_exact ..

lemma running_sum_lower:
  fixes u :: real
  assumes rnd: "\<And>r. \<bar>rnd r - r\<bar> \<le> \<bar>r\<bar> * u" and u: "0 \<le> u" "u \<le> 1" and d: "0 < d"
  shows "running_sum (\<lambda>r. r - r * u) d k \<le> running_sum rnd d k \<and>
         0 \<le> running_sum (\<lambda>r. r - r * u) d k"
proof (induction k)
  case 0
  show ?case by simp
next
  case (Suc k)
  define a where "a = running_sum (\<lambda>r. r - r * u) d k"
  define s where "s = running_sum rnd d k"
  from Suc have as: "a \<le> s" "0 \<le> a" by (simp_all add: a_def s_def)
  have pos: "0 \<le> s + d" using as d by simp
  from rnd[of "s + d"] pos have "(s + d) - (s + d) * u \<le> rnd (s + d)"
    by (simp add: abs_if split: if_splits)
  moreover have "(a + d) * (1 - u) \<le> (s + d) * (1 - u)"
    using as u by (intro mult_right_mono) simp_all
  moreover have "0 \<le> (a + d) * (1 - u)" using as d u by simp
  ultimately show ?case
    by (simp add: a_def[symmetric] s_def[symmetric] algebra_simps)
qed

lemma running_sum_down_mono:
  fixes u :: real
  assumes u: "0 \<le> u" "u \<le> 1" and d: "0 < d"
  shows "running_sum (\<lambda>r. r - r * u) d k \<le> running_sum (\<lambda>r. r - r * u) d (Suc k)"
proof (induction k)
  case 0
  show ?case using u d by (simp add: algebra_simps mult_le_cancel_left2)
next
  case (Suc k)
  define a where "a = running_sum (\<lambda>r. r - r * u) d k"
  define b where "b = running_sum (\<lambda>r. r - r * u) d (Suc k)"
  from Suc have ab: "a \<le> b" by (simp add: a_def b_def)
  have b: "b = (a + d) * (1 - u)" by (simp add: a_def b_def algebra_simps)
  have "(a + d) * (1 - u) \<le> (b + d) * (1 - u)"
    using ab u by (intro mult_right_mono) simp_all
  then have "b \<le> (b + d) * (1 - u)" using b by simp
  moreover have "running_sum (\<lambda>r. r - r * u) d (Suc (Suc k)) = (b + d) * (1 - u)"
    unfolding b_def by (simp add: algebra_simps)
  ultimately show ?case unfolding b_def by simp
qed

lemma running_sum_down_mono_le:
  fixes u :: real
  assumes u: "0 \<le> u" "u \<le> 1" and d: "0 < d" and jk: "j \<le> k"
  shows "running_sum (\<lambda>r. r - r * u) d j \<le> running_sum (\<lambda>r. r - r * u) d k"
  using jk
proof (induction k)
  case 0
  then show ?case by simp
next
  case (Suc k)
  show ?case
  proof (cases "j = Suc k")
    case True
    then show ?thesis by simp
  next
    case False
    with Suc.prems have "j \<le> k" by simp
    from Suc.IH[OF this] running_sum_down_mono[OF u d, of k] show ?thesis by linarith
  qed
qed

lemma running_sum_down_lower:
  fixes u :: real
  assumes u: "0 \<le> u" "u \<le> 1" and d: "0 < d"
  shows "real k * d * (1 - u) ^ k \<le> running_sum (\<lambda>r. r - r * u) d k"
proof (induction k)
  case 0
  show ?case by simp
next
  case (Suc k)
  define a where "a = running_sum (\<lambda>r. r - r * u) d k"
  define p where "p = (1 - u) ^ k"
  from Suc have a: "real k * d * p \<le> a" by (simp add: a_def p_def)
  have p: "0 \<le> p" "p \<le> 1" using u by (simp_all add: p_def power_le_one)
  have "d * p \<le> d" using p d by simp
  with a have "real (Suc k) * d * p \<le> a + d" by (simp add: algebra_simps)
  then have "real (Suc k) * d * p * (1 - u) \<le> (a + d) * (1 - u)"
    using u by (intro mult_right_mono) simp_all
  then show ?case
    by (simp add: a_def[symmetric] p_def[symmetric] algebra_simps)
qed


text \<open>
  With any rounding whose relative error is at most \<open>2\<^sup>-\<^sup>5\<^sup>3\<close>, and a reach of at most a
  million steps, the running distance has reached \<open>L\<close> after one addition more than
  \<open>L / dx\<close> rounded up: a loop that steps while \<open>x < L\<close> takes at most that many steps.
\<close>

lemma rounded_sum_reaches:
  assumes rnd: "\<And>r. \<bar>rnd r - r\<bar> \<le> \<bar>r\<bar> / 2 ^ 53" and d: "0 < d" and l: "l \<le> 10 ^ 6 * d"
    and j: "nat \<lceil>l / d\<rceil> + 1 \<le> j"
  shows "l \<le> running_sum rnd d j"
proof -
  define m where "m = nat \<lceil>l / d\<rceil> + 1"
  define u :: real where "u = 1 / 2 ^ 53"
  define M where "M = real m"
  have u: "0 \<le> u" "u \<le> 1" by (simp_all add: u_def)
  have rnd': "\<bar>rnd r - r\<bar> \<le> \<bar>r\<bar> * u" for r using rnd[of r] by (simp add: u_def)
  from running_sum_lower[OF rnd' u d, of j]
  have low: "running_sum (\<lambda>r. r - r * u) d j \<le> running_sum rnd d j"
    and nonneg: "0 \<le> running_sum rnd d j" by simp_all
  show ?thesis
  proof (cases "0 < l")
    case False
    with nonneg show ?thesis by simp
  next
    case lpos: True
    have ratio: "0 < l / d" "l / d \<le> 10 ^ 6" using lpos d l by (simp_all add: pos_divide_le_eq)
    have M_lo: "l / d + 1 \<le> M"
      unfolding M_def m_def using ratio(1) by simp
    have M_hi: "M \<le> 10 ^ 6 + 2"
    proof -
      have "of_int \<lceil>l / d\<rceil> < l / d + 1" by linarith
      with ratio(2) have "real_of_int \<lceil>l / d\<rceil> \<le> 10 ^ 6 + 1" by linarith
      moreover have "0 \<le> \<lceil>l / d\<rceil>" using ratio(1) by simp
      ultimately show ?thesis unfolding M_def m_def by simp
    qed
    have M0: "0 \<le> M" by (simp add: M_def)
    have "M * M \<le> (10 ^ 6 + 2) * (10 ^ 6 + 2)" using M_hi M0 by (intro mult_mono) simp_all
    then have MMu: "M * M * u \<le> 1" by (simp add: u_def)
    have "(l / d + 1) * d \<le> M * d" using M_lo d by (intro mult_right_mono) simp_all
    moreover have "(l / d + 1) * d = l + d" using d by (simp add: algebra_simps)
    ultimately have "l + d \<le> M * d" by simp
    moreover have "M * M * u * d \<le> 1 * d" using MMu d by (intro mult_right_mono) simp_all
    ultimately have "l \<le> M * d - M * M * u * d" by simp
    also have "\<dots> = M * d * (1 - M * u)" by (simp add: algebra_simps)
    also have "\<dots> \<le> M * d * (1 - u) ^ m"
    proof -
      have "1 + real m * (- u) \<le> (1 + (- u)) ^ m" by (rule Bernoulli_inequality) (use u in simp)
      then have "1 - M * u \<le> (1 - u) ^ m" by (simp add: M_def)
      then show ?thesis using M0 d by (intro mult_left_mono) simp_all
    qed
    also have "\<dots> \<le> running_sum (\<lambda>r. r - r * u) d m"
      unfolding M_def by (rule running_sum_down_lower[OF u d])
    also have "\<dots> \<le> running_sum (\<lambda>r. r - r * u) d j"
      using j by (intro running_sum_down_mono_le[OF u d]) (simp add: m_def)
    also note low
    finally show ?thesis .
  qed
qed

lemma rounded_steps_bound:
  assumes rnd: "\<And>r. \<bar>rnd r - r\<bar> \<le> \<bar>r\<bar> / 2 ^ 53" and d: "0 < d" and l: "l \<le> 10 ^ 6 * d"
    and k: "k \<noteq> 0 \<longrightarrow> running_sum rnd d (k - 1) < l"
  shows "k \<le> nat \<lceil>l / d\<rceil> + 1"
proof (rule ccontr)
  assume "\<not> k \<le> nat \<lceil>l / d\<rceil> + 1"
  then have "nat \<lceil>l / d\<rceil> + 1 \<le> k - 1" and "k \<noteq> 0" by simp_all
  with rounded_sum_reaches[OF rnd d l, of "k - 1"] k show False by simp
qed

text \<open>
  So every loop of the shape of the four loops returns, with at most
  \<open>\<lceil>L / dx\<rceil> + 2\<close> samples: a guard that lets it step only while \<open>x < L\<close>, and a body
  that either leaves by \<open>break\<close> without appending or replaces \<open>x\<close> by the rounded
  \<open>x + dx\<close> and appends one sample.
\<close>

lemma rounded_march:
  fixes px :: "'st \<Rightarrow> real" and cnt :: "'st \<Rightarrow> nat"
  assumes rnd: "\<And>r. \<bar>rnd r - r\<bar> \<le> \<bar>r\<bar> / 2 ^ 53" and d: "0 < d" and l: "l \<le> 10 ^ 6 * d"
    and cont: "\<And>s s'. c s \<Longrightarrow> body s = Continue s' \<Longrightarrow>
                 px s' = rnd (px s + d) \<and> cnt s' = Suc (cnt s)"
    and brk: "\<And>s s'. c s \<Longrightarrow> body s = Break s' \<Longrightarrow> cnt s' = cnt s"
    and cnd: "\<And>s. c s \<Longrightarrow> px s < l"
    and init: "px s0 = 0" "cnt s0 = 1"
  shows "\<exists>r. py_while c body s0 = Some r \<and> (\<forall>t. r = Inr t \<longrightarrow> cnt t \<le> nat \<lceil>l / d\<rceil> + 2)"
proof -
  define m where "m = nat \<lceil>l / d\<rceil> + 1"
  define I where "I s \<longleftrightarrow> (\<exists>k. cnt s = Suc k \<and> px s = running_sum rnd d k \<and> k \<le> m)" for s
  have I0: "I s0" unfolding I_def using init by (intro exI[of _ 0]) simp
  have step: "I s' \<and> Suc m - cnt s' < Suc m - cnt s"
    if "I s" "c s" "body s = Continue s'" for s s'
  proof -
    from that(1) obtain k where k: "cnt s = Suc k" "px s = running_sum rnd d k" "k \<le> m"
      unfolding I_def by blast
    have "k < m"
    proof (rule ccontr)
      assume "\<not> k < m"
      then have "nat \<lceil>l / d\<rceil> + 1 \<le> k" by (simp add: m_def)
      from rounded_sum_reaches[OF rnd d l this] cnd[OF that(2)] k(2) show False by simp
    qed
    moreover from cont[OF that(2,3)] k
    have "cnt s' = Suc (Suc k)" "px s' = running_sum rnd d (Suc k)" by simp_all
    ultimately show ?thesis unfolding I_def using k(1) by auto
  qed
  from py_while_total[of I s0 c body "\<lambda>s. Suc m - cnt s", OF I0 step]
  obtain r where r: "py_while c body s0 = Some r" by blast
  have "cnt t \<le> Suc m" if "r = Inr t" for t
  proof (rule py_while_inv[of c body s0 t I "\<lambda>s. cnt s \<le> Suc m"])
    show "py_while c body s0 = Some (Inr t)" using r that by simp
    show "I s0" by (rule I0)
    show "I s'" if "I s" "c s" "body s = Continue s'" for s s' using step[OF that] by simp
    show "cnt s' \<le> Suc m" if "I s" "c s" "body s = Break s'" for s s'
      using that brk[OF that(2,3)] unfolding I_def by auto
    show "cnt s \<le> Suc m" if "I s" "\<not> c s" for s using that unfolding I_def by auto
  qed
  with r show ?thesis by (auto simp: m_def)
qed



text \<open>Rounding to the nearest double has this relative error.\<close>

lemma round_half_even_error: "\<bar>of_int (round_half_even r) - r\<bar> \<le> 1 / 2"
  unfolding round_half_even_def Let_def by (simp add: abs_if) linarith

lemma binary64_at:
  assumes "2 powi e \<le> \<bar>r\<bar>" "\<bar>r\<bar> < 2 powi (e + 1)"
  shows "binary64 r = of_int (round_half_even (r * 2 powi (52 - e))) * 2 powi (e - 52)"
proof -
  have "(0::real) < 2 powi e" by simp
  with assms(1) have pos: "0 < \<bar>r\<bar>" by linarith
  have p: "(2::real) powr of_int i = 2 powi i" for i by (rule powr_real_of_int') simp_all
  have "2 powr of_int e \<le> \<bar>r\<bar> \<and> \<bar>r\<bar> < 2 powr of_int (e + 1)"
    unfolding p using assms by simp
  then have "\<lfloor>log 2 \<bar>r\<bar>\<rfloor> = e"
    by (subst floor_log_eq_powr_iff[OF pos]) simp_all
  with pos show ?thesis by (simp add: binary64_def)
qed

lemma binary64_error: "\<bar>binary64 r - r\<bar> \<le> \<bar>r\<bar> / 2 ^ 53"
proof (cases "r = 0")
  case True
  then show ?thesis by (simp add: binary64_def)
next
  case False
  define e where "e = \<lfloor>log 2 \<bar>r\<bar>\<rfloor>"
  define q where "q = r * 2 powi (52 - e)"
  have pos: "0 < \<bar>r\<bar>" using False by simp
  have "2 powr of_int e \<le> \<bar>r\<bar>"
    using floor_log_eq_powr_iff[OF pos, of 2 e] by (simp add: e_def)
  then have lo: "2 powi e \<le> \<bar>r\<bar>" by (simp add: powr_real_of_int')
  have two: "(2::real) powi (52 - e) * 2 powi (e - 52) = 1"
    by (simp flip: power_int_add)
  have "binary64 r - r = (of_int (round_half_even q) - q) * 2 powi (e - 52)"
    using False two by (simp add: binary64_def Let_def e_def q_def algebra_simps)
  then have "\<bar>binary64 r - r\<bar> = \<bar>of_int (round_half_even q) - q\<bar> * 2 powi (e - 52)"
    by (simp add: abs_mult)
  also have "\<dots> \<le> 1 / 2 * 2 powi (e - 52)"
    by (intro mult_right_mono round_half_even_error) simp
  also have "\<dots> = 2 powi e / 2 ^ 53"
    by (simp add: power_int_diff)
  also have "\<dots> \<le> \<bar>r\<bar> / 2 ^ 53" using lo by (simp add: divide_right_mono)
  finally show ?thesis .
qed

lemma binary64_steps_bound:
  assumes "0 < d" "l \<le> 10 ^ 6 * d" "k \<noteq> 0 \<longrightarrow> running_sum binary64 d (k - 1) < l"
  shows "k \<le> nat \<lceil>l / d\<rceil> + 1"
  using binary64_error assms by (rule rounded_steps_bound)



text \<open>
  The extra step is taken: with \<open>dx = 0.1\<close> and \<open>L = 0.8\<close>, as doubles, \<open>L / dx\<close> is 8, and
  after 8 additions the running distance is \<open>0.7999999999999999\<close>, still below \<open>L\<close>.
\<close>

lemma running_sum_step:
  "running_sum rnd d k = x \<Longrightarrow> rnd (x + d) = y \<Longrightarrow> running_sum rnd d (Suc k) = y"
  by simp

lemma binary64_tenth: "binary64 (1 / 10) = 3602879701896397 / 36028797018963968"
  using binary64_at[of "-4" "1 / 10"] by (simp add: round_half_even_def)

lemma binary64_eight_tenths: "binary64 (8 / 10) = 3602879701896397 / 4503599627370496"
  using binary64_at[of "-1" "8 / 10"] by (simp add: round_half_even_def)

lemma binary64_sum_of_tenths:
  "running_sum binary64 (3602879701896397 / 36028797018963968) 8
     = 7205759403792793 / 9007199254740992"
proof -
  have r1: "binary64 (0 + 3602879701896397 / 36028797018963968) = 3602879701896397 / 36028797018963968"
    using binary64_at[of "-4" "0 + 3602879701896397 / 36028797018963968"] by (simp add: round_half_even_def)
  have r2: "binary64 (3602879701896397 / 36028797018963968 + 3602879701896397 / 36028797018963968) = 3602879701896397 / 18014398509481984"
    using binary64_at[of "-3" "3602879701896397 / 36028797018963968 + 3602879701896397 / 36028797018963968"] by (simp add: round_half_even_def)
  have r3: "binary64 (3602879701896397 / 18014398509481984 + 3602879701896397 / 36028797018963968) = 1351079888211149 / 4503599627370496"
    using binary64_at[of "-2" "3602879701896397 / 18014398509481984 + 3602879701896397 / 36028797018963968"] by (simp add: round_half_even_def)
  have r4: "binary64 (1351079888211149 / 4503599627370496 + 3602879701896397 / 36028797018963968) = 3602879701896397 / 9007199254740992"
    using binary64_at[of "-2" "1351079888211149 / 4503599627370496 + 3602879701896397 / 36028797018963968"] by (simp add: round_half_even_def)
  have r5: "binary64 (3602879701896397 / 9007199254740992 + 3602879701896397 / 36028797018963968) = 1 / 2"
    using binary64_at[of "-1" "3602879701896397 / 9007199254740992 + 3602879701896397 / 36028797018963968"] by (simp add: round_half_even_def)
  have r6: "binary64 (1 / 2 + 3602879701896397 / 36028797018963968) = 5404319552844595 / 9007199254740992"
    using binary64_at[of "-1" "1 / 2 + 3602879701896397 / 36028797018963968"] by (simp add: round_half_even_def)
  have r7: "binary64 (5404319552844595 / 9007199254740992 + 3602879701896397 / 36028797018963968) = 3152519739159347 / 4503599627370496"
    using binary64_at[of "-1" "5404319552844595 / 9007199254740992 + 3602879701896397 / 36028797018963968"] by (simp add: round_half_even_def)
  have r8: "binary64 (3152519739159347 / 4503599627370496 + 3602879701896397 / 36028797018963968) = 7205759403792793 / 9007199254740992"
    using binary64_at[of "-1" "3152519739159347 / 4503599627370496 + 3602879701896397 / 36028797018963968"] by (simp add: round_half_even_def)
  note s0 = running_sum.simps(1)[of binary64 "3602879701896397 / 36028797018963968"]
  note s1 = running_sum_step[OF s0 r1]
  note s2 = running_sum_step[OF s1 r2]
  note s3 = running_sum_step[OF s2 r3]
  note s4 = running_sum_step[OF s3 r4]
  note s5 = running_sum_step[OF s4 r5]
  note s6 = running_sum_step[OF s5 r6]
  note s7 = running_sum_step[OF s6 r7]
  note s8 = running_sum_step[OF s7 r8]
  from s8 show ?thesis by (simp add: eval_nat_numeral)
qed

lemma binary64_tenths_fall_short:
  "binary64 (8 / 10) / binary64 (1 / 10) = 8 \<and>
   running_sum binary64 (binary64 (1 / 10)) 8 < binary64 (8 / 10)"
  unfolding binary64_tenth binary64_eight_tenths binary64_sum_of_tenths by simp

text \<open>
  Beyond \<open>2\<^sup>5\<^sup>3\<close> steps the distance stops growing: at \<open>x = 2\<^sup>5\<^sup>3\<close> the sum \<open>x + 1\<close> is
  rounded back to \<open>x\<close>.
\<close>

lemma binary64_absorbs: "binary64 (2 ^ 53 + 1) = 2 ^ 53"
  using binary64_at[of 53 "2 ^ 53 + 1"] by (simp add: round_half_even_def)

section \<open>Values in the sliders' ranges\<close>


section \<open>The claims\<close>

text \<open>
  Claim C9. For \<open>Q = 10\<close>, \<open>b = 3\<close> the rectangular critical depth is
  \<open>(100 / (9.81 * 9)) ** (1/3)\<close>, which lies within 0.001 of 1.0424 m; the roughness and
  the slope of the scenario play no part in it.
\<close>

theorem critical_depth_scenario:
  "compute_critical_depth (lit 10) (lit 3) = Inr (lit ((10000 / 8829) powr (1/3))) \<and>
   \<bar>(10000 / 8829) powr (1/3) - 1.0424\<bar> < (0.001::real)"
proof -
  have lo: "(1.0414::real) < (10000 / 8829) powr (1/3)"
    by (rule powr_third_greater) (simp_all add: power3_eq_cube)
  have hi: "(10000 / 8829) powr (1/3) < (1.0434::real)"
    by (rule powr_third_less) (simp_all add: power3_eq_cube)
  have "compute_critical_depth (lit 10) (lit 3) = Inr (lit ((10000 / 8829) powr (1/3)))"
    by (simp add: critical_depth_lit)
  moreover from lo hi have "\<bar>(10000 / 8829) powr (1/3) - 1.0424\<bar> < (0.001::real)"
    by (simp add: abs_if)
  ultimately show ?thesis by blast
qed

text \<open>
  The value the specification gives, 1.022 m, is more than 0.01 m away from what the
  code computes.
\<close>

theorem critical_depth_scenario_not_1022:
  "compute_critical_depth (lit 10) (lit 3) = Inr (lit ((10000 / 8829) powr (1/3))) \<and>
   \<not> \<bar>(10000 / 8829) powr (1/3) - 1.022\<bar> \<le> (0.01::real)"
proof -
  have lo: "(1.04::real) < (10000 / 8829) powr (1/3)"
    by (rule powr_third_greater) (simp_all add: power3_eq_cube)
  have "compute_critical_depth (lit 10) (lit 3) = Inr (lit ((10000 / 8829) powr (1/3)))"
    by (simp add: critical_depth_lit)
  moreover from lo have "\<not> \<bar>(10000 / 8829) powr (1/3) - 1.022\<bar> \<le> (0.01::real)"
    by (simp add: abs_if)
  ultimately show ?thesis by blast
qed

text \<open>
  Claim C10. The reach length \<open>L\<close> handed to \<open>plot_smooth_backwater\<close> has no
  influence on what it computes: two runs that differ in \<open>L\<close> alone give the same result
  (or both fail to return). \<open>compute_gvf_backwater\<close> has no such parameter at all.
\<close>

theorem backwater_independent_of_reach_length:
  "plot_smooth_backwater slv Q b n S0 dx L = plot_smooth_backwater slv Q b n S0 dx L'"
  by (simp add: plot_smooth_backwater_def)




text \<open>
  Claim C3. With a finite step \<open>dx > 0\<close> every returned list of distances is
  strictly increasing. A forward run returns \<open>0, dx, 2 dx, ...\<close>: it starts at
  \<open>x = 0\<close>. The backward run builds \<open>0, -dx, -2 dx, ...\<close> and returns it reversed: its
  list ends at \<open>x = 0\<close> and starts at the most negative distance.
\<close>

theorem profile_x_order:
  assumes d: "0 < d"
  shows "(\<exists>r. plot_profile slv Q b n S0 (lit l) (lit d) = Some r \<and>
            (\<forall>xs ys yc yn. r = Inr (xs, ys, yc, yn) \<longrightarrow>
               sorted_wrt lt xs \<and> hd xs = lit 0 \<and> xs = grid d (length xs - 1))) \<and>
         (\<exists>r. compute_backwater_from_weir Q b n S0 (lit d) (lit l) = Some r \<and>
            (\<forall>xs ys yc frs. r = Inr (xs, ys, yc, frs) \<longrightarrow>
               sorted_wrt lt xs \<and> hd xs = lit 0 \<and> xs = grid d (length xs - 1))) \<and>
         (\<exists>r. compute_gvf_profile slv Q b z n S0 (lit d) (lit l) = Some r \<and>
            (\<forall>xs ys yc path. r = Inr (xs, ys, yc, path) \<longrightarrow>
               sorted_wrt lt xs \<and> hd xs = lit 0 \<and> xs = grid d (length xs - 1))) \<and>
         (\<exists>r. compute_gvf_backwater Q b n S0 y_end y_stop (lit d) = Some r \<and>
            (\<forall>xs ys. r = Inr (xs, ys) \<longrightarrow>
               sorted_wrt lt xs \<and> last xs = lit 0 \<and>
               hd xs = lit (- (real (length xs - 1) * d)) \<and>
               xs = rev (grid (- d) (length xs - 1))))"
proof (intro conjI)
  show "\<exists>r. plot_profile slv Q b n S0 (lit l) (lit d) = Some r \<and>
            (\<forall>xs ys yc yn. r = Inr (xs, ys, yc, yn) \<longrightarrow>
               sorted_wrt lt xs \<and> hd xs = lit 0 \<and> xs = grid d (length xs - 1))"
    using plot_profile_run[OF d, of slv Q b n S0 l] sorted_grid[OF d]
    by (fastforce simp: hd_grid length_grid)
  show "\<exists>r. compute_backwater_from_weir Q b n S0 (lit d) (lit l) = Some r \<and>
            (\<forall>xs ys yc frs. r = Inr (xs, ys, yc, frs) \<longrightarrow>
               sorted_wrt lt xs \<and> hd xs = lit 0 \<and> xs = grid d (length xs - 1))"
    using compute_backwater_from_weir_run[OF d, of Q b n S0 l] sorted_grid[OF d]
    by (fastforce simp: hd_grid length_grid)
  show "\<exists>r. compute_gvf_profile slv Q b z n S0 (lit d) (lit l) = Some r \<and>
            (\<forall>xs ys yc path. r = Inr (xs, ys, yc, path) \<longrightarrow>
               sorted_wrt lt xs \<and> hd xs = lit 0 \<and> xs = grid d (length xs - 1))"
    using compute_gvf_profile_run[OF d, of slv Q b z n S0 l] sorted_grid[OF d]
    by (fastforce simp: hd_grid length_grid)
  have nd: "- d < 0" using d by simp
  show "\<exists>r. compute_gvf_backwater Q b n S0 y_end y_stop (lit d) = Some r \<and>
            (\<forall>xs ys. r = Inr (xs, ys) \<longrightarrow>
               sorted_wrt lt xs \<and> last xs = lit 0 \<and>
               hd xs = lit (- (real (length xs - 1) * d)) \<and>
               xs = rev (grid (- d) (length xs - 1)))"
    using compute_gvf_backwater_run[OF d, of Q b n S0 y_end y_stop] sorted_rev_grid[OF nd]
    by (fastforce simp: hd_rev_grid last_rev_grid length_grid)
qed

theorem profile_x_order_witness:
  "0 < (1::real) \<and>
   ((\<exists>r. plot_profile seed_solver (lit 10) (lit 3) (lit 0.03) (lit 0.001) (lit 100) (lit 1) = Some r \<and>
       (\<forall>xs ys yc yn. r = Inr (xs, ys, yc, yn) \<longrightarrow>
          sorted_wrt lt xs \<and> hd xs = lit 0 \<and> xs = grid 1 (length xs - 1))) \<and>
    (\<exists>r. compute_backwater_from_weir (lit 10) (lit 3) (lit 0.03) (lit 0.001) (lit 1) (lit 100) = Some r \<and>
       (\<forall>xs ys yc frs. r = Inr (xs, ys, yc, frs) \<longrightarrow>
          sorted_wrt lt xs \<and> hd xs = lit 0 \<and> xs = grid 1 (length xs - 1))) \<and>
    (\<exists>r. compute_gvf_profile seed_solver (lit 10) (lit 3) (lit 0) (lit 0.03) (lit 0.001) (lit 1) (lit 100) = Some r \<and>
       (\<forall>xs ys yc path. r = Inr (xs, ys, yc, path) \<longrightarrow>
          sorted_wrt lt xs \<and> hd xs = lit 0 \<and> xs = grid 1 (length xs - 1))) \<and>
    (\<exists>r. compute_gvf_backwater (lit 10) (lit 3) (lit 0.03) (lit 0.001) (Np (Fin 2)) (lit 1) (lit 1) = Some r \<and>
       (\<forall>xs ys. r = Inr (xs, ys) \<longrightarrow>
          sorted_wrt lt xs \<and> last xs = lit 0 \<and>
          hd xs = lit (- (real (length xs - 1) * 1)) \<and>
          xs = rev (grid (- 1) (length xs - 1)))))"
  using profile_x_order[where d = 1 and slv = seed_solver and Q = "lit 10" and b = "lit 3"
      and n = "lit 0.03" and ?S0.0 = "lit 0.001" and l = 100 and z = "lit 0"
      and y_end = "Np (Fin 2)" and y_stop = "lit 1"]
  by simp

text \<open>
  The backward profile does not start at \<open>x = 0\<close>: from a depth of 2 m with \<open>Q = 10\<close>,
  \<open>b = 3\<close>, \<open>n = 0.03\<close>, \<open>S0 = 0.001\<close>, stopping depth 1 m and \<open>dx = 1\<close> the first step is
  accepted, so the returned list begins with a negative distance.
\<close>

theorem backwater_profile_starts_below_zero:
  "(case compute_gvf_backwater (lit 10) (lit 3) (lit 0.03) (lit 0.001) (Np (Fin 2)) (lit 1) (lit 1) of
      Some (Inr (xs, ys)) \<Rightarrow> hd xs \<noteq> lit 0 \<and> lt (hd xs) (lit 0)
    | _ \<Rightarrow> False)"
proof -
  define c :: "march \<Rightarrow> bool"
    where "c = (\<lambda>(x, y, x_vals, y_vals). gt y (lit 1) \<and> gt x (lit (- 1000)))"
  define body where "body = gvf_backwater_body (lit 10) (lit 3) (lit 0.03) (lit 0.001) (lit 1)"
  obtain v' where step: "body (lit 0, Np (Fin 2), [lit 0], [Np (Fin 2)]) =
      Continue (lit (- 1), Np (Fin v'), [lit 0, lit (- 1)], [Np (Fin 2), Np (Fin v')])"
    unfolding body_def using gvf_backwater_first_step by blast
  have c0: "c (lit 0, Np (Fin 2), [lit 0], [Np (Fin 2)])"
    by (simp add: c_def gt_def lit_def)
  have unroll: "py_while c body (lit 0, Np (Fin 2), [lit 0], [Np (Fin 2)]) =
      py_while c body (lit (- 1), Np (Fin v'), [lit 0, lit (- 1)], [Np (Fin 2), Np (Fin v')])"
    by (rule py_while_Continue[where body = body and c = c, OF step c0])
  have "\<exists>r. py_while c body (lit (real (Suc 0) * (- 1)), Np (Fin v'), grid (- 1) (Suc 0),
          [Np (Fin 2), Np (Fin v')]) = Some r \<and>
        (\<forall>x y xs ys. r = Inr (x, y, xs, ys) \<longrightarrow>
           (\<exists>k. Suc 0 \<le> k \<and> xs = grid (- 1) k \<and> length ys = Suc k \<and>
                (k \<noteq> 0 \<longrightarrow> real (k - 1) * 1 < 1000)))"
    unfolding c_def body_def by (rule gvf_backwater_loop) simp_all
  then obtain r where r0: "py_while c body (lit (real (Suc 0) * (- 1)), Np (Fin v'),
          grid (- 1) (Suc 0), [Np (Fin 2), Np (Fin v')]) = Some r"
    and post0: "\<forall>x y xs ys. r = Inr (x, y, xs, ys) \<longrightarrow>
           (\<exists>k. Suc 0 \<le> k \<and> xs = grid (- 1) k \<and> length ys = Suc k \<and>
                (k \<noteq> 0 \<longrightarrow> real (k - 1) * 1 < 1000))"
    by blast
  from r0 have r: "py_while c body (lit (- 1), Np (Fin v'), [lit 0, lit (- 1)],
          [Np (Fin 2), Np (Fin v')]) = Some r"
    by (simp add: grid_1)
  from post0 have post: "\<exists>k. Suc 0 \<le> k \<and> xs = grid (- 1) k" if "r = Inr (x, y, xs, ys)"
    for x y xs ys using that by blast
  have run: "compute_gvf_backwater (lit 10) (lit 3) (lit 0.03) (lit 0.001) (Np (Fin 2)) (lit 1) (lit 1)
      = map_option (map_sum id (\<lambda>(x, y, x_vals, y_vals). (rev x_vals, rev y_vals))) (Some r)"
    unfolding compute_gvf_backwater_def c_def[symmetric] body_def[symmetric] unroll r ..
  show ?thesis
  proof (cases r)
    case (Inl e)
    with run compute_gvf_backwater_no_raise[of "lit 10" "lit 3" "lit 0.03" "lit 0.001" "Fin 2"
        "lit 1" "lit 1" e]
    show ?thesis by simp
  next
    case (Inr t)
    obtain x y xs ys where t: "t = (x, y, xs, ys)" by (cases t)
    from post[of x y xs ys] Inr t obtain k where k: "Suc 0 \<le> k" "xs = grid (- 1) k" by auto
    have "hd (rev xs) = lit (- real k)" unfolding k by (simp add: hd_rev_grid)
    moreover have "real k \<noteq> 0" "0 < real k" using k(1) by simp_all
    ultimately have "hd (rev xs) \<noteq> lit 0 \<and> lt (hd (rev xs)) (lit 0)"
      by (simp add: lit_def lt_def)
    then show ?thesis
      unfolding run using Inr t by simp
  qed
qed




text \<open>
  Claim C1. The loops of \<open>compute_gvf_profile\<close>, \<open>compute_backwater_from_weir\<close> and
  \<open>compute_gvf_backwater\<close> test the new depth before they append it. The loop of
  \<open>plot_profile\<close> has no such test: with \<open>Q = 7\<close>, \<open>b = 3\<close>, \<open>n = 0.3\<close>, \<open>S0 = 0.001\<close>,
  \<open>L = 60\<close>, \<open>dx = 0.25\<close> its first step gives a depth that is not positive, and the
  returned profile holds that depth as its second sample.
\<close>

theorem plot_profile_appends_nonpositive_depth:
  "(case plot_profile seed_solver (lit 7) (lit 3) (lit 0.3) (lit 0.001) (lit 60) (lit 0.25) of
      Some (Inr (xs, ys, yc, yn)) \<Rightarrow> 2 \<le> length ys \<and> le (ys ! 1) (lit 0)
    | _ \<Rightarrow> False)"
proof -
  define c :: "march \<Rightarrow> bool" where "c = (\<lambda>(x, y, x_vals, y_vals). lt x (lit 60))"
  define body where "body = plot_profile_body (lit 7) (lit 3) (lit 0.3) (lit 0.001) (lit 0.25)"
  obtain v v' where v: "0 < v" "v' \<le> 0"
    and yc: "compute_critical_depth (lit 7) (lit 3) = Inr (lit (v / 1.05))"
    and step: "body (lit 0, lit v, [lit 0], [lit v]) =
      Continue (lit 0.25, Np (Fin v'), [lit 0, lit 0.25], [lit v, Np (Fin v')])"
    unfolding body_def using plot_profile_first_step_7 by blast
  obtain yn where yn: "compute_normal_depth_interactive seed_solver (lit 7) (lit 3) (lit 0.3)
      (lit 0.001) = Inr yn"
    using normal_depth_interactive_seed[of 3 7] by auto
  have y0: "mul (lit (v / 1.05)) (lit 1.05) = lit v" by (simp add: mul_lit)
  have c0: "c (lit 0, lit v, [lit 0], [lit v])" by (simp add: c_def lt_lit)
  have unroll: "py_while c body (lit 0, lit v, [lit 0], [lit v]) =
      py_while c body (lit 0.25, Np (Fin v'), [lit 0, lit 0.25], [lit v, Np (Fin v')])"
    by (rule py_while_Continue[where body = body and c = c, OF step c0])
  have "\<exists>r. py_while c body (lit (real 0 * 0.25), lit v, grid 0.25 0, [lit v]) = Some r \<and>
        (\<forall>x y xs ys. r = Inr (x, y, xs, ys) \<longrightarrow>
           (\<exists>k. 0 \<le> k \<and> xs = grid 0.25 k \<and> length ys = Suc k \<and>
                (k \<noteq> 0 \<longrightarrow> real (k - 1) * 0.25 < 60)))"
    unfolding c_def body_def by (rule plot_profile_loop) simp_all
  then obtain r where r: "py_while c body (lit 0, lit v, [lit 0], [lit v]) = Some r"
    by (auto simp: grid_0)
  have "\<exists>t. r = Inr t"
    by (rule plot_profile_fin_no_raise[OF r[unfolded body_def] val_lit v(1)]) simp
  then obtain x y xs ys where t: "r = Inr (x, y, xs, ys)" by auto
  from r t unroll have "py_while c body (lit 0.25, Np (Fin v'), [lit 0, lit 0.25],
      [lit v, Np (Fin v')]) = Some (Inr (x, y, xs, ys))" by simp
  from march4_extends[OF this] plot_profile_body_Continue[of "lit 7" "lit 3" "lit 0.3" "lit 0.001"
      "lit 0.25"] plot_profile_body_Break[of "lit 7" "lit 3" "lit 0.3" "lit 0.001" "lit 0.25"]
  obtain rest where ys: "ys = [lit v, Np (Fin v')] @ rest"
    unfolding body_def by blast
  have res: "plot_profile seed_solver (lit 7) (lit 3) (lit 0.3) (lit 0.001) (lit 60) (lit 0.25) =
      Some (Inr (xs, ys, lit (v / 1.05), yn))"
    unfolding plot_profile_def yc yn sum.case Let_def y0 c_def[symmetric] body_def[symmetric] r t
    by simp
  show ?thesis unfolding res using v(2) by (simp add: ys le_def lit_def)
qed

text \<open>
  Claim C6. No integrator returns a termination reason; the results are the lists
  with the critical depth and the Froude list or the file path (\<open>compute_gvf_backwater\<close>: the
  two lists alone). A truncated sequence carries no annotation: when the first step of a
  forward integrator ends in \<open>break\<close> (singular denominator or invalid depth alike), the
  result is the initial sample alone, for every reach length \<open>L\<close>, and so the same as for
  a reach length that was reached at once.
\<close>

theorem truncated_profile_not_annotated:
  "(compute_critical_depth Q b = Inr yc \<and>
    backwater_from_weir_body Q b n S0 dx
      (lit 0, mul yc (lit 1.01), [lit 0], [mul yc (lit 1.01)], []) = Break s \<longrightarrow>
    compute_backwater_from_weir Q b n S0 dx L =
      Some (Inr ([lit 0], [mul yc (lit 1.01)], yc, [])) \<and>
    compute_backwater_from_weir Q b n S0 dx L = compute_backwater_from_weir Q b n S0 dx (lit 0)) \<and>
   (compute_critical_depth_trapezoidal slv Q b z = Inr yt \<and>
    gvf_profile_body Q b z n S0 dx
      (lit 0, mul yt (lit 1.01), [lit 0], [mul yt (lit 1.01)]) = Break t \<longrightarrow>
    compute_gvf_profile slv Q b z n S0 dx L =
      Some (Inr ([lit 0], [mul yt (lit 1.01)], yt, ''outputs/gvf_profile.csv'')) \<and>
    compute_gvf_profile slv Q b z n S0 dx L = compute_gvf_profile slv Q b z n S0 dx (lit 0))"
  using backwater_from_weir_first_break[of Q b yc n S0 dx s]
    gvf_profile_first_break[of slv Q b z yt n S0 dx t]
  by simp


theorem truncated_profile_not_annotated_witness:
  "compute_critical_depth (lit 7) (lit 3) = Inr (lit ((7\<^sup>2 / (9.81 * 3\<^sup>2)) powr (1/3))) \<and>
   (case backwater_from_weir_body (lit 7) (lit 3) (lit 0.3) (lit 0.001) (lit 0.25)
      (lit 0, mul (lit ((7\<^sup>2 / (9.81 * 3\<^sup>2)) powr (1/3))) (lit 1.01), [lit 0],
       [mul (lit ((7\<^sup>2 / (9.81 * 3\<^sup>2)) powr (1/3))) (lit 1.01)], []) of
      Break s \<Rightarrow> True | _ \<Rightarrow> False) \<and>
   compute_backwater_from_weir (lit 7) (lit 3) (lit 0.3) (lit 0.001) (lit 0.25) (lit 60) =
     Some (Inr ([lit 0], [mul (lit ((7\<^sup>2 / (9.81 * 3\<^sup>2)) powr (1/3))) (lit 1.01)],
                lit ((7\<^sup>2 / (9.81 * 3\<^sup>2)) powr (1/3)), [])) \<and>
   compute_critical_depth_trapezoidal seed_solver (lit 0) (lit 3) (lit 0) = Inr (Np (Fin 1)) \<and>
   gvf_profile_body (lit 0) (lit 3) (lit 0) (lit 0.03) (lit (- 2)) (lit 1)
      (lit 0, mul (Np (Fin 1)) (lit 1.01), [lit 0], [mul (Np (Fin 1)) (lit 1.01)])
     = Break (lit 1, Np (Fin (- 0.99)), [lit 0], [mul (Np (Fin 1)) (lit 1.01)]) \<and>
   compute_gvf_profile seed_solver (lit 0) (lit 3) (lit 0) (lit 0.03) (lit (- 2)) (lit 1) (lit 60) =
     Some (Inr ([lit 0], [mul (Np (Fin 1)) (lit 1.01)], Np (Fin 1), ''outputs/gvf_profile.csv''))"
proof -
  define y0 where "y0 = mul (lit ((7\<^sup>2 / (9.81 * 3\<^sup>2)) powr (1/3))) (lit 1.01)"
  have yc: "compute_critical_depth (lit 7) (lit 3) = Inr (lit ((7\<^sup>2 / (9.81 * 3\<^sup>2)) powr (1/3)))"
    by (rule critical_depth_lit) simp
  obtain x' y' where brk: "backwater_from_weir_body (lit 7) (lit 3) (lit 0.3) (lit 0.001) (lit 0.25)
      (lit 0, y0, [lit 0], [y0], []) = Break (x', y', [lit 0], [y0], [])"
    unfolding y0_def using backwater_from_weir_first_step_7 by blast
  have yt: "compute_critical_depth_trapezoidal seed_solver (lit 0) (lit 3) (lit 0)
      = Inr (Np (Fin 1))"
    by (simp add: compute_critical_depth_trapezoidal_def fsolve_first_def seed_solver_def lit_def)
  have tb: "gvf_profile_body (lit 0) (lit 3) (lit 0) (lit 0.03) (lit (- 2)) (lit 1)
      (lit 0, mul (Np (Fin 1)) (lit 1.01), [lit 0], [mul (Np (Fin 1)) (lit 1.01)])
     = Break (lit 1, Np (Fin (- 0.99)), [lit 0], [mul (Np (Fin 1)) (lit 1.01)])"
    by (simp add: gvf_profile_body_def Fr_trapezoidal_def Sf_trapezoidal_def hydraulic_radius_def
        area_def perimeter_def top_width_def Let_def bind_err_def num_defs signed_inf_def)
  from truncated_profile_not_annotated[where Q = "lit 7" and b = "lit 3" and n = "lit 0.3"
      and ?S0.0 = "lit 0.001" and dx = "lit 0.25" and L = "lit 60"
      and yc = "lit ((7\<^sup>2 / (9.81 * 3\<^sup>2)) powr (1/3))" and s = "(x', y', [lit 0], [y0], [])"]
    yc brk
  have r1: "compute_backwater_from_weir (lit 7) (lit 3) (lit 0.3) (lit 0.001) (lit 0.25) (lit 60) =
     Some (Inr ([lit 0], [y0], lit ((7\<^sup>2 / (9.81 * 3\<^sup>2)) powr (1/3)), []))"
    unfolding y0_def by blast
  from truncated_profile_not_annotated[where Q = "lit 0" and b = "lit 3" and n = "lit 0.03"
      and ?S0.0 = "lit (- 2)" and dx = "lit 1" and L = "lit 60" and slv = seed_solver
      and z = "lit 0" and yt = "Np (Fin 1)"
      and t = "(lit 1, Np (Fin (- 0.99)), [lit 0], [mul (Np (Fin 1)) (lit 1.01)])"]
    yt tb
  have r2: "compute_gvf_profile seed_solver (lit 0) (lit 3) (lit 0) (lit 0.03) (lit (- 2)) (lit 1)
      (lit 60) =
     Some (Inr ([lit 0], [mul (Np (Fin 1)) (lit 1.01)], Np (Fin 1), ''outputs/gvf_profile.csv''))"
    by blast
  from yc brk r1 yt tb r2 show ?thesis unfolding y0_def by simp
qed

text \<open>
  Two runs of \<open>compute_backwater_from_weir\<close> with \<open>Q = 7\<close>, \<open>b = 3\<close>, \<open>n = 0.3\<close>,
  \<open>S0 = 0.001\<close>, \<open>dx = 0.25\<close>: with \<open>L = 60\<close> the loop is entered and left by \<open>break\<close>
  because the first new depth is not positive; with \<open>L = 0\<close> the loop is not entered, the
  reach length being reached. Both return the same value, so nothing in it tells the
  reason.
\<close>

theorem invalid_depth_indistinguishable_from_reached_target:
  "(case backwater_from_weir_body (lit 7) (lit 3) (lit 0.3) (lit 0.001) (lit 0.25)
      (lit 0, mul (lit ((7\<^sup>2 / (9.81 * 3\<^sup>2)) powr (1/3))) (lit 1.01), [lit 0],
       [mul (lit ((7\<^sup>2 / (9.81 * 3\<^sup>2)) powr (1/3))) (lit 1.01)], []) of
      Break (x', y', rest) \<Rightarrow> le y' (lit 0) | _ \<Rightarrow> False) \<and>
   lt (lit 0) (lit 60) \<and> \<not> lt (lit 0) (lit 0) \<and>
   compute_backwater_from_weir (lit 7) (lit 3) (lit 0.3) (lit 0.001) (lit 0.25) (lit 60) =
   compute_backwater_from_weir (lit 7) (lit 3) (lit 0.3) (lit 0.001) (lit 0.25) (lit 0)"
proof -
  define y0 where "y0 = mul (lit ((7\<^sup>2 / (9.81 * 3\<^sup>2)) powr (1/3))) (lit 1.01)"
  have yc: "compute_critical_depth (lit 7) (lit 3) = Inr (lit ((7\<^sup>2 / (9.81 * 3\<^sup>2)) powr (1/3)))"
    by (rule critical_depth_lit) simp
  obtain x' y' where le: "le y' (lit 0)"
    and brk: "backwater_from_weir_body (lit 7) (lit 3) (lit 0.3) (lit 0.001) (lit 0.25)
      (lit 0, y0, [lit 0], [y0], []) = Break (x', y', [lit 0], [y0], [])"
    unfolding y0_def using backwater_from_weir_first_step_7 by blast
  have "compute_backwater_from_weir (lit 7) (lit 3) (lit 0.3) (lit 0.001) (lit 0.25) L =
      Some (Inr ([lit 0], [y0], lit ((7\<^sup>2 / (9.81 * 3\<^sup>2)) powr (1/3)), []))" for L
    unfolding y0_def by (rule backwater_from_weir_first_break[OF yc brk[unfolded y0_def]])
  then have "compute_backwater_from_weir (lit 7) (lit 3) (lit 0.3) (lit 0.001) (lit 0.25) (lit 60) =
      compute_backwater_from_weir (lit 7) (lit 3) (lit 0.3) (lit 0.001) (lit 0.25) (lit 0)"
    by simp
  with le brk show ?thesis unfolding y0_def by (simp add: lt_lit)
qed

text \<open>
  Claim C2. For a finite positive depth \<open>v\<close> in a channel of width \<open>b > 0\<close> (and
  side slope \<open>z \<ge> 0\<close>) the denominator is \<open>1 - F\<close> with \<open>F\<close> the squared Froude number.
  Three loops (\<open>plot_profile\<close>, \<open>compute_gvf_backwater\<close>, \<open>compute_gvf_profile\<close>) leave by
  \<open>break\<close> with the state untouched when \<open>\<bar>1 - F\<bar> < 1e-6\<close> and divide by \<open>1 - F\<close>
  otherwise. The loop of \<open>compute_backwater_from_weir\<close> divides by \<open>\<delta>\<close>, which is the
  positive literal \<open>1e-6\<close> when \<open>\<bar>1 - F\<bar> < 1e-6\<close>, whatever the sign of \<open>1 - F\<close>, and
  \<open>1 - F\<close> otherwise. No divisor has a magnitude below \<open>1e-6\<close>.
\<close>

theorem singular_denominator_guard:
  assumes y: "val y = Fin v" "0 < v" and b: "0 < bb" and z: "0 \<le> zz"
    and F: "F = q\<^sup>2 / (9.81 * bb\<^sup>2 * v ^ 3)"
    and SF: "SF = nn\<^sup>2 * q\<^sup>2 / ((bb * v)\<^sup>2 * v powr (4/3))"
    and A: "A = bb * v + zz * v\<^sup>2" and T: "T = bb + 2 * zz * v"
    and P: "P = bb + 2 * v * (1 + zz\<^sup>2) powr 0.5"
    and Ft: "Ft = q\<^sup>2 * T / (9.81 * A ^ 3)"
    and SFt: "SFt = nn\<^sup>2 * q\<^sup>2 / (A\<^sup>2 * (A / P) powr (4/3))"
    and \<delta>: "\<delta> = (if \<bar>1 - F\<bar> < 0.000001 then 0.000001 else 1 - F)"
  shows "plot_profile_body (lit q) (lit bb) (lit nn) (lit s0) (lit d) (x, y, xs, ys) =
           (if \<bar>1 - F\<bar> < 0.000001 then Break (x, y, xs, ys)
            else Continue (add x (lit d), Np (Fin (v + (s0 - SF) / (1 - F) * d)),
                   xs @ [add x (lit d)], ys @ [Np (Fin (v + (s0 - SF) / (1 - F) * d))])) \<and>
         gvf_backwater_body (lit q) (lit bb) (lit nn) (lit s0) (lit d) (x, y, xs, ys) =
           (if \<bar>1 - F\<bar> < 0.000001 then Break (x, y, xs, ys)
            else if v - (s0 - SF) / (1 - F) * d \<le> 0
            then Break (sub x (lit d), Np (Fin (v - (s0 - SF) / (1 - F) * d)), xs, ys)
            else Continue (sub x (lit d), Np (Fin (v - (s0 - SF) / (1 - F) * d)),
                   xs @ [sub x (lit d)], ys @ [Np (Fin (v - (s0 - SF) / (1 - F) * d))])) \<and>
         gvf_profile_body (lit q) (lit bb) (lit zz) (lit nn) (lit s0) (lit d)
             (x, Np (Fin v), xs, ys) =
           (if \<bar>1 - Ft\<bar> < 0.000001 then Break (x, Np (Fin v), xs, ys)
            else if v + (s0 - SFt) / (1 - Ft) * d \<le> 0
            then Break (add x (lit d), Np (Fin (v + (s0 - SFt) / (1 - Ft) * d)), xs, ys)
            else Continue (add x (lit d), Np (Fin (v + (s0 - SFt) / (1 - Ft) * d)),
                   xs @ [add x (lit d)], ys @ [Np (Fin (v + (s0 - SFt) / (1 - Ft) * d))])) \<and>
         0.000001 \<le> \<bar>\<delta>\<bar> \<and>
         (\<exists>y' fr. val y' = Fin (v + (s0 - SF) / \<delta> * d) \<and>
            backwater_from_weir_body (lit q) (lit bb) (lit nn) (lit s0) (lit d) (x, y, xs, ys, frs) =
              (if v + (s0 - SF) / \<delta> * d \<le> 0 then Break (add x (lit d), y', xs, ys, frs)
               else Continue (add x (lit d), y', xs @ [add x (lit d)], ys @ [y'], frs @ [fr])))"
proof (intro conjI)
  have b0: "bb \<noteq> 0" using b by simp
  show "plot_profile_body (lit q) (lit bb) (lit nn) (lit s0) (lit d) (x, y, xs, ys) =
           (if \<bar>1 - F\<bar> < 0.000001 then Break (x, y, xs, ys)
            else Continue (add x (lit d), Np (Fin (v + (s0 - SF) / (1 - F) * d)),
                   xs @ [add x (lit d)], ys @ [Np (Fin (v + (s0 - SF) / (1 - F) * d))]))"
    by (rule plot_profile_body_fin[OF y b0 F SF refl])
  show "gvf_backwater_body (lit q) (lit bb) (lit nn) (lit s0) (lit d) (x, y, xs, ys) =
           (if \<bar>1 - F\<bar> < 0.000001 then Break (x, y, xs, ys)
            else if v - (s0 - SF) / (1 - F) * d \<le> 0
            then Break (sub x (lit d), Np (Fin (v - (s0 - SF) / (1 - F) * d)), xs, ys)
            else Continue (sub x (lit d), Np (Fin (v - (s0 - SF) / (1 - F) * d)),
                   xs @ [sub x (lit d)], ys @ [Np (Fin (v - (s0 - SF) / (1 - F) * d))]))"
    by (rule gvf_backwater_body_fin[OF y b0 F SF refl])
  show "gvf_profile_body (lit q) (lit bb) (lit zz) (lit nn) (lit s0) (lit d)
             (x, Np (Fin v), xs, ys) =
           (if \<bar>1 - Ft\<bar> < 0.000001 then Break (x, Np (Fin v), xs, ys)
            else if v + (s0 - SFt) / (1 - Ft) * d \<le> 0
            then Break (add x (lit d), Np (Fin (v + (s0 - SFt) / (1 - Ft) * d)), xs, ys)
            else Continue (add x (lit d), Np (Fin (v + (s0 - SFt) / (1 - Ft) * d)),
                   xs @ [add x (lit d)], ys @ [Np (Fin (v + (s0 - SFt) / (1 - Ft) * d))]))"
    by (rule gvf_profile_body_fin[OF y(2) b z A T P Ft SFt refl])
  show "0.000001 \<le> \<bar>\<delta>\<bar>" unfolding \<delta> by simp
  show "\<exists>y' fr. val y' = Fin (v + (s0 - SF) / \<delta> * d) \<and>
            backwater_from_weir_body (lit q) (lit bb) (lit nn) (lit s0) (lit d) (x, y, xs, ys, frs) =
              (if v + (s0 - SF) / \<delta> * d \<le> 0 then Break (add x (lit d), y', xs, ys, frs)
               else Continue (add x (lit d), y', xs @ [add x (lit d)], ys @ [y'], frs @ [fr]))"
    unfolding \<delta> by (rule backwater_from_weir_body_fin[OF y b0 F SF refl])
qed

theorem singular_denominator_guard_witness:
  "0 < (2::real) \<and> 0 < (3::real) \<and> 0 \<le> (1::real) \<and>
   (case plot_profile_body (lit 10) (lit 3) (lit 0.03) (lit 0.001) (lit 1)
           (lit 0, Np (Fin 2), [lit 0], [Np (Fin 2)]) of
      Continue s \<Rightarrow> True | _ \<Rightarrow> False) \<and>
   (case gvf_backwater_body (lit 10) (lit 3) (lit 0.03) (lit 0.001) (lit 1)
           (lit 0, Np (Fin 2), [lit 0], [Np (Fin 2)]) of
      Continue s \<Rightarrow> True | _ \<Rightarrow> False) \<and>
   (case gvf_profile_body (lit 10) (lit 3) (lit 1) (lit 0.03) (lit 0.001) (lit 1)
           (lit 0, Np (Fin 2), [lit 0], [Np (Fin 2)]) of
      Raise e \<Rightarrow> False | _ \<Rightarrow> True) \<and>
   (case backwater_from_weir_body (lit 10) (lit 3) (lit 0.03) (lit 0.001) (lit 1)
           (lit 0, Np (Fin 2), [lit 0], [Np (Fin 2)], []) of
      Raise e \<Rightarrow> False | _ \<Rightarrow> True)"
proof -
  define F :: real where "F = 10\<^sup>2 / (9.81 * 3\<^sup>2 * 2 ^ 3)"
  define SF :: real where "SF = 0.03\<^sup>2 * 10\<^sup>2 / ((3 * 2)\<^sup>2 * 2 powr (4/3))"
  have Fv: "F = 1250 / 8829" by (simp add: F_def)
  have SF0: "0 \<le> SF" by (simp add: SF_def)
  have "(0.001 - SF) / (1 - F) \<le> 0.001 / (1 - F)"
    using SF0 unfolding Fv by (simp add: divide_right_mono)
  also have "\<dots> < 2" unfolding Fv by simp
  finally have pos: "\<not> 2 - (0.001 - SF) / (1 - F) * 1 \<le> 0" by simp
  have sing: "\<not> \<bar>1 - F\<bar> < 0.000001" unfolding Fv by simp
  note g = singular_denominator_guard[where y = "Np (Fin 2)" and v = 2 and bb = 3 and zz = 1
      and q = 10 and nn = "0.03" and ?s0.0 = "0.001" and d = 1 and x = "lit 0"
      and xs = "[lit 0]" and ys = "[Np (Fin 2)]" and frs = "[]", OF _ _ _ _ F_def SF_def
      refl refl refl refl refl refl]
  have h: "val (Np (Fin 2)) = Fin 2" "0 < (2::real)" "0 < (3::real)" "0 \<le> (1::real)"
    by simp_all
  note g' = g[OF h]
  have c1: "(case plot_profile_body (lit 10) (lit 3) (lit 0.03) (lit 0.001) (lit 1)
           (lit 0, Np (Fin 2), [lit 0], [Np (Fin 2)]) of
      Continue s \<Rightarrow> True | _ \<Rightarrow> False)"
    using g'[THEN conjunct1] sing by simp
  have c2: "(case gvf_backwater_body (lit 10) (lit 3) (lit 0.03) (lit 0.001) (lit 1)
           (lit 0, Np (Fin 2), [lit 0], [Np (Fin 2)]) of
      Continue s \<Rightarrow> True | _ \<Rightarrow> False)"
    using g'[THEN conjunct2, THEN conjunct1] sing pos by simp
  have c3: "(case gvf_profile_body (lit 10) (lit 3) (lit 1) (lit 0.03) (lit 0.001) (lit 1)
           (lit 0, Np (Fin 2), [lit 0], [Np (Fin 2)]) of
      Raise e \<Rightarrow> False | _ \<Rightarrow> True)"
    using g'[THEN conjunct2, THEN conjunct2, THEN conjunct1] by (simp split: if_splits)
  have c4: "(case backwater_from_weir_body (lit 10) (lit 3) (lit 0.03) (lit 0.001) (lit 1)
           (lit 0, Np (Fin 2), [lit 0], [Np (Fin 2)], []) of
      Raise e \<Rightarrow> False | _ \<Rightarrow> True)"
    using g'[THEN conjunct2, THEN conjunct2, THEN conjunct2, THEN conjunct2]
    by (auto split: if_splits)
  from c1 c2 c3 c4 show ?thesis by simp
qed

text \<open>
  The clamp does not keep the sign. At a depth just below the critical depth
  (\<open>y = 1.042388\<close> for \<open>Q = 10\<close>, \<open>b = 3\<close>) the denominator is negative and of magnitude
  below \<open>1e-6\<close>. The code divides the negative \<open>S0 - Sf\<close> by \<open>+1e-6\<close>: the new depth is not
  positive and the loop stops. Dividing by \<open>-1e-6\<close>, as the specification words it, gives
  a positive depth and the loop would go on.
\<close>

theorem clamp_drops_sign:
  "(case Fr (lit 10) (lit 3) (Np (Fin 1.042388)) of
      Inr fr \<Rightarrow> lt (sub (lit 1) (pow_int fr 2)) (lit 0) \<and>
                lt (pabs (sub (lit 1) (pow_int fr 2))) (lit 0.000001)
    | Inl e \<Rightarrow> False) \<and>
   (case backwater_from_weir_body (lit 10) (lit 3) (lit 0.03) (lit 0.001) (lit 1)
      (lit 0, Np (Fin 1.042388), [lit 0], [Np (Fin 1.042388)], []) of
      Break (x', y', rest) \<Rightarrow> le y' (lit 0) | _ \<Rightarrow> False) \<and>
   (case spec_signed_clamp_body (lit 10) (lit 3) (lit 0.03) (lit 0.001) (lit 1)
      (lit 0, Np (Fin 1.042388), [lit 0], [Np (Fin 1.042388)], []) of
      Continue (x', y', rest) \<Rightarrow> lt (lit 0) y' | _ \<Rightarrow> False)"
proof -
  define v :: real where "v = 1.042388"
  define F :: real where "F = 10\<^sup>2 / (9.81 * 3\<^sup>2 * v ^ 3)"
  define SF :: real where "SF = 0.03\<^sup>2 * 10\<^sup>2 / ((3 * v)\<^sup>2 * v powr (4/3))"
  define v1 where "v1 = v + (0.001 - SF) / (if \<bar>1 - F\<bar> < 0.000001 then 0.000001 else 1 - F) * 1"
  define v2 where "v2 = v + (0.001 - SF) /
      (if \<bar>1 - F\<bar> < 0.000001 then (if 1 - F < 0 then - 0.000001 else 0.000001) else 1 - F) * 1"
  note nc = near_critical_state[OF v_def F_def SF_def]
  have vpos: "0 < v" by (simp add: v_def)
  have vval: "val (Np (Fin v)) = Fin v" by simp
  have v1neg: "v1 \<le> 0" using nc by (simp add: v1_def v_def)
  have v2pos: "0 < v2" using nc by (simp add: v2_def v_def)
  have fr: "Fr (lit 10) (lit 3) (Np (Fin v)) = Inr (Np (Fin (10 / (3 * v * sqrt (9.81 * v)))))"
    by (rule Fr_fin[OF vval vpos]) simp
  have den: "sub (lit 1) (pow_int (Np (Fin (10 / (3 * v * sqrt (9.81 * v))))) 2) = Np (Fin (1 - F))"
    unfolding denom_np F_def using froude_sq[OF vpos, of 3 10] by (simp add: fl_sub_def)
  have c1: "(case Fr (lit 10) (lit 3) (Np (Fin v)) of
      Inr fr \<Rightarrow> lt (sub (lit 1) (pow_int fr 2)) (lit 0) \<and>
                lt (pabs (sub (lit 1) (pow_int fr 2))) (lit 0.000001)
    | Inl e \<Rightarrow> False)"
    unfolding fr sum.case den using nc by (simp add: num_defs)
  from backwater_from_weir_body_fin[OF vval vpos _ F_def SF_def v1_def, where
      x = "lit 0" and xs = "[lit 0]" and ys = "[Np (Fin v)]" and frs = "[]"] v1neg
  have c2: "(case backwater_from_weir_body (lit 10) (lit 3) (lit 0.03) (lit 0.001) (lit 1)
      (lit 0, Np (Fin v), [lit 0], [Np (Fin v)], []) of
      Break (x', y', rest) \<Rightarrow> le y' (lit 0) | _ \<Rightarrow> False)"
    by (auto simp: le_def lit_def)
  from spec_signed_clamp_body_fin[OF vval vpos _ F_def SF_def v2_def, where
      x = "lit 0" and xs = "[lit 0]" and ys = "[Np (Fin v)]" and frs = "[]"] v2pos
  have c3: "(case spec_signed_clamp_body (lit 10) (lit 3) (lit 0.03) (lit 0.001) (lit 1)
      (lit 0, Np (Fin v), [lit 0], [Np (Fin v)], []) of
      Continue (x', y', rest) \<Rightarrow> lt (lit 0) y' | _ \<Rightarrow> False)"
    by (auto simp: lt_def lit_def)
  from c1 c2 c3 show ?thesis unfolding v_def by blast
qed

text \<open>
  Claim C4. For \<open>Q > 0\<close> and \<open>b > 0\<close> the rectangular \<open>compute_critical_depth\<close> is
  the closed form \<open>(Q\<^sup>2 / (g b\<^sup>2)) ** (1/3)\<close>, computed directly. The trapezoidal
  \<open>compute_critical_depth\<close> hands its residual to the root finder with start value 1.0 for
  every side slope, \<open>z = 0\<close> included; it has no closed-form branch. At \<open>z = 0\<close> the
  residual \<open>Q\<^sup>2 T - g A\<^sup>3\<close> vanishes at a positive depth exactly when that depth is the
  closed form.
\<close>

theorem critical_depth_closed_form:
  assumes "0 < q" "0 < bb" "0 < y"
  shows "compute_critical_depth (lit q) (lit bb) = Inr (lit ((q\<^sup>2 / (9.81 * bb\<^sup>2)) powr (1/3))) \<and>
         compute_critical_depth_trapezoidal slv Q b z =
           fsolve_first slv (critical_depth_func Q b z) (lit 1) \<and>
         (critical_depth_func (lit q) (lit bb) (lit 0) (Np (Fin y)) = Inr (Np (Fin 0)) \<longleftrightarrow>
            y = (q\<^sup>2 / (9.81 * bb\<^sup>2)) powr (1/3))"
proof (intro conjI)
  show "compute_critical_depth (lit q) (lit bb) = Inr (lit ((q\<^sup>2 / (9.81 * bb\<^sup>2)) powr (1/3)))"
    using assms(2) by (intro critical_depth_lit) simp
  show "compute_critical_depth_trapezoidal slv Q b z =
           fsolve_first slv (critical_depth_func Q b z) (lit 1)"
    by (simp add: compute_critical_depth_trapezoidal_def)
  show "critical_depth_func (lit q) (lit bb) (lit 0) (Np (Fin y)) = Inr (Np (Fin 0)) \<longleftrightarrow>
            y = (q\<^sup>2 / (9.81 * bb\<^sup>2)) powr (1/3)"
    unfolding critical_depth_func_rect using rect_root_iff[OF assms(2,3), of q] by simp
qed

theorem critical_depth_closed_form_witness:
  "0 < (10::real) \<and> 0 < (3::real) \<and> 0 < (10\<^sup>2 / (9.81 * 3\<^sup>2)) powr (1/3 :: real) \<and>
   compute_critical_depth (lit 10) (lit 3) = Inr (lit ((10\<^sup>2 / (9.81 * 3\<^sup>2)) powr (1/3))) \<and>
   compute_critical_depth_trapezoidal seed_solver (lit 10) (lit 3) (lit 0.5) =
     fsolve_first seed_solver (critical_depth_func (lit 10) (lit 3) (lit 0.5)) (lit 1) \<and>
   critical_depth_func (lit 10) (lit 3) (lit 0) (Np (Fin ((10\<^sup>2 / (9.81 * 3\<^sup>2)) powr (1/3))))
     = Inr (Np (Fin 0))"
proof -
  have pos: "0 < (10\<^sup>2 / (9.81 * 3\<^sup>2)) powr (1/3 :: real)" by simp
  from critical_depth_closed_form[where q = 10 and bb = 3
      and y = "(10\<^sup>2 / (9.81 * 3\<^sup>2)) powr (1/3)" and slv = seed_solver and Q = "lit 10"
      and b = "lit 3" and z = "lit 0.5", OF _ _ pos]
  show ?thesis using pos by simp
qed

text \<open>
  At \<open>z = 0\<close> the trapezoidal function still returns what the root finder returns: with
  the root finder that gives its start value back, the result for \<open>Q = 10\<close>, \<open>b = 3\<close>,
  \<open>z = 0\<close> is the start value 1.0, not the closed form.
\<close>

theorem rectangular_trapezoid_uses_root_finder:
  "compute_critical_depth_trapezoidal seed_solver (lit 10) (lit 3) (lit 0) = Inr (Np (Fin 1)) \<and>
   compute_critical_depth (lit 10) (lit 3) = Inr (lit ((10000 / 8829) powr (1/3))) \<and>
   (10000 / 8829) powr (1/3) \<noteq> (1::real)"
proof -
  have "(1::real) < (10000 / 8829) powr (1/3)"
    by (rule powr_third_greater) simp_all
  moreover have "compute_critical_depth_trapezoidal seed_solver (lit 10) (lit 3) (lit 0)
      = Inr (Np (Fin 1))"
    by (simp add: compute_critical_depth_trapezoidal_def fsolve_first_def seed_solver_def lit_def)
  moreover have "compute_critical_depth (lit 10) (lit 3) = Inr (lit ((10000 / 8829) powr (1/3)))"
    by (simp add: critical_depth_lit)
  ultimately show ?thesis by simp
qed

text \<open>
  Claim C7. Both \<open>compute_normal_depth\<close> functions start the root finder at 1.5
  times the closed-form critical depth. The residual \<open>manning_eq\<close> of the smooth-backwater
  notebook returns \<open>1e6\<close> for every trial depth \<open>y \<le> 0\<close>; the residual of the interactive
  notebook has no guard and evaluates \<open>y ** (5/3)\<close> at such a depth: at \<open>y = -1\<close> it gives
  not-a-number.
\<close>

theorem interactive_residual_unguarded:
  "manning_eq (lit 10) (lit 3) (lit 0.03) (lit 0.001) (Np (Fin (- 1))) = Inr (lit 1000000) \<and>
   normal_depth_func (lit 10) (lit 3) (lit 0.03) (lit 0.001) (Np (Fin (- 1))) = Inr (Np NaN) \<and>
   compute_normal_depth slv (lit 10) (lit 3) (lit 0.03) (lit 0.001) =
     fsolve_first slv (manning_eq (lit 10) (lit 3) (lit 0.03) (lit 0.001))
       (mul (lit ((10000 / 8829) powr (1/3))) (lit 1.5)) \<and>
   compute_normal_depth_interactive slv (lit 10) (lit 3) (lit 0.03) (lit 0.001) =
     fsolve_first slv (normal_depth_func (lit 10) (lit 3) (lit 0.03) (lit 0.001))
       (mul (lit ((10000 / 8829) powr (1/3))) (lit 1.5))"
proof (intro conjI)
  show "manning_eq (lit 10) (lit 3) (lit 0.03) (lit 0.001) (Np (Fin (- 1))) = Inr (lit 1000000)"
    by (rule manning_eq_guard) (simp add: le_def lit_def)
  show "normal_depth_func (lit 10) (lit 3) (lit 0.03) (lit 0.001) (Np (Fin (- 1))) = Inr (Np NaN)"
    by (simp add: normal_depth_func_def bind_err_def num_defs)
  have yc: "compute_critical_depth (lit 10) (lit 3) = Inr (lit ((10000 / 8829) powr (1/3)))"
    by (simp add: critical_depth_lit)
  show "compute_normal_depth slv (lit 10) (lit 3) (lit 0.03) (lit 0.001) =
     fsolve_first slv (manning_eq (lit 10) (lit 3) (lit 0.03) (lit 0.001))
       (mul (lit ((10000 / 8829) powr (1/3))) (lit 1.5))"
    unfolding compute_normal_depth_def yc by (simp add: bind_err_def Let_def)
  show "compute_normal_depth_interactive slv (lit 10) (lit 3) (lit 0.03) (lit 0.001) =
     fsolve_first slv (normal_depth_func (lit 10) (lit 3) (lit 0.03) (lit 0.001))
       (mul (lit ((10000 / 8829) powr (1/3))) (lit 1.5))"
    using yc unfolding compute_normal_depth_interactive_def compute_critical_depth_def
    by (simp add: bind_err_def Let_def num_defs)
qed

end
